theory Spec2Isabelle
  imports Complex_Main "HOL-Library.Char_ord" "HOL-Library.List_Lexorder"
    "HOL-Library.Product_Lexorder"
begin

section \<open>Values, strings and errors\<close>

text \<open>
  The notebook \<^verbatim>\<open>2conll_to_dep.ipynb\<close> defines two functions, \<^verbatim>\<open>parse_conll\<close> and
  \<^verbatim>\<open>calc_mdd\<close>.  Both work on a pandas data frame whose cells are Python objects.  The
  key columns \<^verbatim>\<open>docid\<close> and \<^verbatim>\<open>sentid\<close> hold \<^verbatim>\<open>None\<close>, an \<^verbatim>\<open>int\<close> (a running
  counter) or a \<^verbatim>\<open>str\<close> (an identifier read from a comment line); the ten CoNLL-U
  columns hold a \<^verbatim>\<open>str\<close>, or \<^verbatim>\<open>None\<close> where the data frame constructor padded a
  short line.

  A \<^typ>\<open>string\<close> is a list of 8-bit characters; each is read as the code point of the
  same number, so the model covers text in the range U+0000 to U+00FF.
\<close>

datatype cell = CNone | CInt int | CStr string

datatype error = IndexError | ValueError

text \<open>\<^verbatim>\<open>str.isspace\<close> on one code point below 256.\<close>

definition isspace :: "char \<Rightarrow> bool" where
  "isspace c =
     (let n = (of_char c :: nat)
      in (9 \<le> n \<and> n \<le> 13) \<or> (28 \<le> n \<and> n \<le> 32) \<or> n = 133 \<or> n = 160)"

text \<open>\<^verbatim>\<open>s.strip()\<close>\<close>

definition strip :: "string \<Rightarrow> string" where
  "strip s = rev (dropWhile isspace (rev (dropWhile isspace s)))"

text \<open>\<^verbatim>\<open>s.startswith(p)\<close>\<close>

definition startswith :: "string \<Rightarrow> string \<Rightarrow> bool" where
  "startswith s p = (take (length p) s = p)"

text \<open>\<^verbatim>\<open>s.split(c)\<close> for a separator of one character.\<close>

fun split_char :: "char \<Rightarrow> string \<Rightarrow> string list" where
  "split_char c [] = [[]]"
| "split_char c (x # xs) =
     (if x = c then [] # split_char c xs
      else (case split_char c xs of
              [] \<Rightarrow> [[x]]
            | w # ws \<Rightarrow> (x # w) # ws))"

text \<open>
  \<^verbatim>\<open>s.split(sep, 1)[1]\<close> for a nonempty \<^verbatim>\<open>sep\<close>: the text after the first occurrence
  of \<^verbatim>\<open>sep\<close>; \<open>None\<close> stands for the \<^verbatim>\<open>IndexError\<close> of indexing the one-element list
  that \<^verbatim>\<open>split\<close> returns when \<^verbatim>\<open>sep\<close> does not occur.
\<close>

fun split1_snd :: "string \<Rightarrow> string \<Rightarrow> string option" where
  "split1_snd sep [] = None"
| "split1_snd sep (x # xs) =
     (if startswith (x # xs) sep then Some (drop (length sep) (x # xs))
      else split1_snd sep xs)"

text \<open>\<^verbatim>\<open>str.lower\<close> on one code point below 256, and on a string.\<close>

definition lower_char :: "char \<Rightarrow> char" where
  "lower_char c =
     (let n = (of_char c :: nat)
      in if (65 \<le> n \<and> n \<le> 90) \<or> (192 \<le> n \<and> n \<le> 222 \<and> n \<noteq> 215)
         then char_of (n + 32) else c)"

definition lower :: "string \<Rightarrow> string" where
  "lower s = map lower_char s"

section \<open>The data frame of tokens\<close>

text \<open>
  One row of the frame that \<^verbatim>\<open>parse_conll\<close> builds, with the twelve columns of
  \<^verbatim>\<open>cols\<close>.  The columns \<^verbatim>\<open>id\<close> and \<^verbatim>\<open>lemma\<close> are \<open>id_col\<close> and \<open>lemma_col\<close> here.
  The columns \<^verbatim>\<open>id\<close> and \<^verbatim>\<open>head\<close> hold the text of the field, not a number: the source
  never converts them.
\<close>

record row =
  docid :: cell
  sentid :: cell
  id_col :: "string option"
  token :: "string option"
  lemma_col :: "string option"
  upos :: "string option"
  xpos :: "string option"
  feats :: "string option"
  head :: "string option"
  deprel :: "string option"
  deps :: "string option"
  misc :: "string option"

section \<open>parse_conll\<close>

text \<open>
  The three local variables that the loop of \<^verbatim>\<open>parse_conll\<close> updates.  An entry of
  \<open>data\<close> is the tuple \<^verbatim>\<open>(doc_id, sentence_ids[-1], *line.split('\t'))\<close>.
\<close>

record parse_state =
  data :: "(cell \<times> cell \<times> string list) list"
  doc_ids :: "cell list"
  sentence_ids :: "cell list"

definition init_state :: parse_state where
  "init_state = \<lparr>data = [], doc_ids = [], sentence_ids = [CInt 1]\<rparr>"

text \<open>
  One iteration of the loop.  The branches are those of the source, in its order.
  \<^verbatim>\<open>sentence_ids[-1]\<close> raises \<^verbatim>\<open>IndexError\<close> on an empty list.
\<close>

definition parse_line :: "parse_state \<Rightarrow> string \<Rightarrow> error + parse_state" where
  "parse_line st raw =
     (let line = strip raw in
      if startswith line ''# newdoc id ='' then
        (case split1_snd ''# newdoc id = '' line of
           None \<Rightarrow> Inl IndexError
         | Some rest \<Rightarrow>
             Inr (st\<lparr>doc_ids := doc_ids st @ [CStr (strip rest)],
                     sentence_ids := [CInt 1]\<rparr>))
      else if line = ''# newdoc'' then
        Inr (st\<lparr>doc_ids := doc_ids st @ [CInt (int (length (doc_ids st)) + 1)],
                sentence_ids := [CInt 1]\<rparr>)
      else if startswith line ''# sent_id ='' then
        (case split1_snd ''# sent_id = '' line of
           None \<Rightarrow> Inl IndexError
         | Some rest \<Rightarrow>
             (if sentence_ids st = [] then Inl IndexError
              else Inr (st\<lparr>sentence_ids :=
                             butlast (sentence_ids st) @ [CStr (strip rest)]\<rparr>)))
      else if startswith line ''#'' then Inr st
      else if line = [] then
        Inr (st\<lparr>sentence_ids :=
                  sentence_ids st @ [CInt (int (length (sentence_ids st)) + 1)]\<rparr>)
      else if sentence_ids st = [] then Inl IndexError
      else
        Inr (st\<lparr>data := data st @
                  [(if doc_ids st = [] then CNone else last (doc_ids st),
                    last (sentence_ids st),
                    split_char (CHR 0x09) line)]\<rparr>))"

text \<open>The loop over the lines: the first exception ends it.\<close>

fun parse_lines :: "parse_state \<Rightarrow> string list \<Rightarrow> error + parse_state" where
  "parse_lines st [] = Inr st"
| "parse_lines st (l # ls) =
     (case parse_line st l of
        Inl e \<Rightarrow> Inl e
      | Inr st' \<Rightarrow> parse_lines st' ls)"

text \<open>
  \<^verbatim>\<open>pd.DataFrame(data, columns=cols)\<close> on a list of tuples.  pandas lays the tuples out
  in an array as wide as the longest tuple and fills the missing cells of the shorter
  ones with \<^verbatim>\<open>None\<close>; it raises when that width is not the number of column names
  (\<^verbatim>\<open>ValueError\<close>: "12 columns passed, passed data had n columns"; an
  \<^verbatim>\<open>AssertionError\<close> with the same message in the versions of 2018).  An empty list
  gives an empty frame.
\<close>

definition nth_field :: "string list \<Rightarrow> nat \<Rightarrow> string option" where
  "nth_field fs i = (if i < length fs then Some (fs ! i) else None)"

definition to_row :: "cell \<times> cell \<times> string list \<Rightarrow> row" where
  "to_row t =
     (case t of (d, s, fs) \<Rightarrow>
        \<lparr>docid = d, sentid = s,
         id_col = nth_field fs 0, token = nth_field fs 1, lemma_col = nth_field fs 2,
         upos = nth_field fs 3, xpos = nth_field fs 4, feats = nth_field fs 5,
         head = nth_field fs 6, deprel = nth_field fs 7, deps = nth_field fs 8,
         misc = nth_field fs 9\<rparr>)"

definition tuple_width :: "cell \<times> cell \<times> string list \<Rightarrow> nat" where
  "tuple_width t = (case t of (d, s, fs) \<Rightarrow> 2 + length fs)"

definition DataFrame :: "(cell \<times> cell \<times> string list) list \<Rightarrow> error + row list" where
  "DataFrame rows =
     (if rows = [] then Inr []
      else if fold max (map tuple_width rows) 0 \<noteq> 12 then Inl ValueError
      else Inr (map to_row rows))"

definition parse_conll :: "string \<Rightarrow> error + row list" where
  "parse_conll conll =
     (case parse_lines init_state (split_char (CHR 0x0A) conll) of
        Inl e \<Rightarrow> Inl e
      | Inr st \<Rightarrow> DataFrame (data st))"

section \<open>calc_mdd\<close>

subsection \<open>The frames with added columns\<close>

text \<open>
  \<^verbatim>\<open>calc_mdd\<close> adds the columns \<^verbatim>\<open>new_id\<close>, \<^verbatim>\<open>new_head\<close> and \<^verbatim>\<open>dd\<close> one after the
  other.  \<^verbatim>\<open>new_head\<close> comes out of a left join, so a row without a match holds
  \<^verbatim>\<open>NaN\<close> there, written \<open>None\<close>; \<^verbatim>\<open>dd\<close> is then \<^verbatim>\<open>NaN\<close> as well.
\<close>

record row_new_id = row +
  new_id :: int

record row_merged = row_new_id +
  new_head :: "int option"

record row_dd = row_merged +
  dd :: "int option"

definition add_new_id :: "row \<Rightarrow> int \<Rightarrow> row_new_id" where
  "add_new_id r n = row.extend r (row_new_id.fields n)"

definition add_new_head :: "row_new_id \<Rightarrow> int option \<Rightarrow> row_merged" where
  "add_new_head r h = row_new_id.extend r (row_merged.fields h)"

text \<open>\<^verbatim>\<open>d['dd'] = (d['new_head'] - d['new_id']).abs()\<close>, row by row.\<close>

definition add_dd :: "row_merged \<Rightarrow> row_dd" where
  "add_dd r =
     row_merged.extend r
       (row_dd.fields (map_option (\<lambda>h. \<bar>h - new_id r\<bar>) (new_head r)))"

subsection \<open>Removing punctuation\<close>

text \<open>
  \<^verbatim>\<open>d = d[d['upos'].str.lower() != 'punct'].copy()\<close>.  On a \<^verbatim>\<open>None\<close> cell
  \<^verbatim>\<open>.str.lower()\<close> gives \<^verbatim>\<open>NaN\<close>, which differs from \<^verbatim>\<open>'punct'\<close>: the row stays.
\<close>

definition is_punct :: "'a row_scheme \<Rightarrow> bool" where
  "is_punct r = (map_option lower (upos r) = Some ''punct'')"

definition drop_punct :: "row list \<Rightarrow> row list" where
  "drop_punct d = filter (\<lambda>r. \<not> is_punct r) d"

subsection \<open>Groups\<close>

text \<open>
  \<^verbatim>\<open>groupby\<close> leaves out the rows that have a null in a key column (\<^verbatim>\<open>dropna=True\<close>,
  the default).  The group key of a row by \<^verbatim>\<open>['docid', 'sentid']\<close>:
\<close>

definition key :: "'a row_scheme \<Rightarrow> cell \<times> cell" where
  "key r = (docid r, sentid r)"

definition notnull :: "cell \<Rightarrow> bool" where
  "notnull c = (c \<noteq> CNone)"

definition notnull_key :: "'a row_scheme \<Rightarrow> bool" where
  "notnull_key r = (notnull (docid r) \<and> notnull (sentid r))"

text \<open>The distinct elements of a list in the order of their first occurrence.\<close>

fun unique :: "'a list \<Rightarrow> 'a list" where
  "unique [] = []"
| "unique (x # xs) = x # unique (filter (\<lambda>y. y \<noteq> x) xs)"

text \<open>
  \<^verbatim>\<open>list(d.groupby(['docid', 'sentid'], sort=False).size())\<close>: the sizes of the groups,
  the groups in the order in which their keys first occur.
\<close>

definition group_sizes :: "'a row_scheme list \<Rightarrow> nat list" where
  "group_sizes d =
     (let ks = map key (filter notnull_key d)
      in map (\<lambda>k. count_list ks k) (unique ks))"

text \<open>\<^verbatim>\<open>list(chain.from_iterable([range(1, l+1) for l in doc_sent_n]))\<close>\<close>

definition chain_ranges :: "nat list \<Rightarrow> int list" where
  "chain_ranges ns = concat (map (\<lambda>l. [1 .. int l]) ns)"

text \<open>
  \<^verbatim>\<open>d['new_id'] = ...\<close> assigns the list to the rows by position, and raises
  \<^verbatim>\<open>ValueError\<close> when the list is not as long as the frame.
\<close>

definition set_new_id :: "row list \<Rightarrow> error + row_new_id list" where
  "set_new_id d =
     (let ids = chain_ranges (group_sizes d)
      in if length ids \<noteq> length d then Inl ValueError
         else Inr (map2 add_new_id d ids))"

subsection \<open>The head lookup\<close>

text \<open>
  \<^verbatim>\<open>ref\<close> is the frame itself with \<^verbatim>\<open>id\<close> renamed to \<^verbatim>\<open>head\<close> and \<^verbatim>\<open>new_id\<close> to
  \<^verbatim>\<open>new_head\<close>.  \<^verbatim>\<open>pd.merge(d, ref, how='left', on=['docid', 'sentid', 'head'])\<close> keeps
  the order of the left rows; a left row gives one row for each row of \<^verbatim>\<open>ref\<close> with
  equal keys, in the order of \<^verbatim>\<open>ref\<close>, and one row with \<^verbatim>\<open>NaN\<close> when there is none.
  Keys are compared as Python objects (a \<^verbatim>\<open>str\<close> never equals an \<^verbatim>\<open>int\<close>), and pandas
  lets a null key match a null key.
\<close>

definition merge_row :: "row_new_id list \<Rightarrow> row_new_id \<Rightarrow> row_merged list" where
  "merge_row ref l =
     (let ms = map new_id
                 (filter (\<lambda>r. docid r = docid l \<and> sentid r = sentid l \<and> id_col r = head l)
                    ref)
      in if ms = [] then [add_new_head l None]
         else map (\<lambda>m. add_new_head l (Some m)) ms)"

definition merge_left :: "row_new_id list \<Rightarrow> row_merged list" where
  "merge_left d = concat (map (merge_row d) d)"

text \<open>The frame that is aggregated: everything \<^verbatim>\<open>calc_mdd\<close> does before the \<^verbatim>\<open>if\<close>.\<close>

definition dd_frame :: "row list \<Rightarrow> error + row_dd list" where
  "dd_frame d =
     (case set_new_id (drop_punct d) of
        Inl e \<Rightarrow> Inl e
      | Inr d1 \<Rightarrow> Inr (map add_dd (merge_left d1)))"

subsection \<open>Aggregation\<close>

text \<open>
  The order of the rows of a \<^verbatim>\<open>groupby\<close> with \<^verbatim>\<open>sort=True\<close> (the default): pandas
  sorts the keys of an object column with numbers first, in their order, then strings
  in the order of their code points.  Null keys have no group; they are put last here.
\<close>

instantiation cell :: linorder
begin

fun less_eq_cell :: "cell \<Rightarrow> cell \<Rightarrow> bool" where
  "less_eq_cell (CInt a) (CInt b) = (a \<le> b)"
| "less_eq_cell (CInt a) (CStr b) = True"
| "less_eq_cell (CInt a) CNone = True"
| "less_eq_cell (CStr a) (CInt b) = False"
| "less_eq_cell (CStr a) (CStr b) = (a \<le> b)"
| "less_eq_cell (CStr a) CNone = True"
| "less_eq_cell CNone CNone = True"
| "less_eq_cell CNone (CInt b) = False"
| "less_eq_cell CNone (CStr b) = False"

definition less_cell :: "cell \<Rightarrow> cell \<Rightarrow> bool" where
  "less_cell a b = (a \<le> b \<and> \<not> b \<le> a)"

instance
proof
  fix x y z :: cell
  show "(x < y) = (x \<le> y \<and> \<not> y \<le> x)"
    by (simp add: less_cell_def)
  show "x \<le> x"
    by (cases x) simp_all
  show "x \<le> y \<Longrightarrow> y \<le> z \<Longrightarrow> x \<le> z"
    by (cases x; cases y; cases z) auto
  show "x \<le> y \<Longrightarrow> y \<le> x \<Longrightarrow> x = y"
    by (cases x; cases y) auto
  show "x \<le> y \<or> y \<le> x"
    by (cases x; cases y) auto
qed

end

text \<open>
  A 64-bit float as far as \<^verbatim>\<open>calc_mdd\<close> needs it.  \<open>Finite q\<close> stands for the double
  nearest to the real number \<open>q\<close>; the sums and counts are whole numbers, which a double
  holds exactly below \<open>2 ^ 53\<close>.
\<close>

datatype float64 = Finite real | PosInf | NegInf | NaN

text \<open>
  Division of two pandas columns of numbers: no exception on a zero divisor, but
  \<^verbatim>\<open>NaN\<close> for \<^verbatim>\<open>0 / 0\<close> and an infinity otherwise.
\<close>

definition fdiv :: "int \<Rightarrow> int \<Rightarrow> float64" where
  "fdiv a b =
     (if b = 0 then (if a = 0 then NaN else if 0 < a then PosInf else NegInf)
      else Finite (real_of_int a / real_of_int b))"

text \<open>\<^verbatim>\<open>'sum'\<close> skips \<^verbatim>\<open>NaN\<close>, and is \<open>0\<close> when nothing is left.\<close>

fun sum_skipna :: "int option list \<Rightarrow> int" where
  "sum_skipna [] = 0"
| "sum_skipna (None # xs) = sum_skipna xs"
| "sum_skipna (Some v # xs) = v + sum_skipna xs"

text \<open>\<^verbatim>\<open>'count'\<close> counts the cells that are not null.\<close>

definition count_notnull :: "'a option list \<Rightarrow> int" where
  "count_notnull xs = int (length (filter (\<lambda>x. x \<noteq> None) xs))"

text \<open>\<^verbatim>\<open>'nunique'\<close> counts the distinct values that are not null.\<close>

definition nunique :: "cell list \<Rightarrow> int" where
  "nunique xs = int (length (remdups (filter notnull xs)))"

record sent_agg =
  s_docid :: cell
  s_sentid :: cell
  s_sum_dd :: int
  s_n_tokens :: int
  s_mdd :: float64

record doc_agg =
  d_docid :: cell
  d_sum_dd :: int
  d_n_tokens :: int
  d_n_sents :: int
  d_mdd :: float64

text \<open>The branch \<^verbatim>\<open>by_sentence==True\<close>: one row for each key, the keys sorted.\<close>

definition sent_row :: "row_dd list \<Rightarrow> cell \<times> cell \<Rightarrow> sent_agg" where
  "sent_row d k =
     (let g = filter (\<lambda>r. key r = k) d;
          s = sum_skipna (map dd g);
          n = count_notnull (map token g)
      in \<lparr>s_docid = fst k, s_sentid = snd k, s_sum_dd = s, s_n_tokens = n,
          s_mdd = fdiv s (n - 1)\<rparr>)"

definition agg_by_sentence :: "row_dd list \<Rightarrow> sent_agg list" where
  "agg_by_sentence d =
     map (sent_row d) (sort (remdups (map key (filter notnull_key d))))"

text \<open>The other branch: the groups are the documents.\<close>

definition doc_row :: "row_dd list \<Rightarrow> cell \<Rightarrow> doc_agg" where
  "doc_row d k =
     (let g = filter (\<lambda>r. docid r = k) d;
          s = sum_skipna (map dd g);
          n = count_notnull (map token g);
          m = nunique (map sentid g)
      in \<lparr>d_docid = k, d_sum_dd = s, d_n_tokens = n, d_n_sents = m,
          d_mdd = fdiv s (n - m)\<rparr>)"

definition agg_by_document :: "row_dd list \<Rightarrow> doc_agg list" where
  "agg_by_document d =
     map (doc_row d) (sort (remdups (map docid (filter (\<lambda>r. notnull (docid r)) d))))"

text \<open>The frame \<^verbatim>\<open>calc_mdd\<close> returns has one of two sets of columns.\<close>

datatype agg_frame = BySentence "sent_agg list" | ByDocument "doc_agg list"

definition calc_mdd :: "row list \<Rightarrow> bool \<Rightarrow> error + agg_frame" where
  "calc_mdd d by_sentence =
     (case dd_frame d of
        Inl e \<Rightarrow> Inl e
      | Inr d2 \<Rightarrow>
          (if by_sentence then Inr (BySentence (agg_by_sentence d2))
           else Inr (ByDocument (agg_by_document d2))))"

section \<open>The document of the notebook\<close>

text \<open>\<^verbatim>\<open>sep.join(xs)\<close> for a separator of one character, to write the text down.\<close>

fun join :: "char \<Rightarrow> string list \<Rightarrow> string" where
  "join c [] = []"
| "join c [x] = x"
| "join c (x # y # ys) = x @ c # join c (y # ys)"

definition tab_line :: "string list \<Rightarrow> string" where
  "tab_line fs = join (CHR 0x09) fs"

text \<open>
  The string \<^verbatim>\<open>doc\<close> of the notebook, line by line.  The literal starts with a line
  break, and the escape \<^verbatim>\<open>\n\<close> at the end of its last data line is a line break too,
  so that line ends with \<^verbatim>\<open>SpacesAfter=\<close> and three empty lines follow.
\<close>

definition doc :: string where
  "doc = join (CHR 0x0A)
     ['''',
      ''# newdoc id = doc1'',
      ''# newpar'',
      ''# sent_id = 1'',
      ''# text = I eat the pizza.'',
      tab_line [''1'', ''I'', ''I'', ''PRON'', ''PRP'',
               ''Case=Nom|Number=Sing|Person=1|PronType=Prs'', ''2'', ''nsubj'',
               ''_'', ''_''],
      tab_line [''2'', ''eat'', ''eat'', ''VERB'', ''VBP'',
               ''Mood=Ind|Tense=Pres|VerbForm=Fin'', ''0'', ''root'', ''_'', ''_''],
      tab_line [''3'', ''the'', ''the'', ''DET'', ''DT'',
               ''Definite=Def|PronType=Art'', ''4'', ''det'', ''_'', ''_''],
      tab_line [''4'', ''pizza'', ''pizza'', ''NOUN'', ''NN'', ''Number=Sing'',
               ''2'', ''obj'', ''_'', ''SpaceAfter=No''],
      tab_line [''5'', ''.'', ''.'', ''PUNCT'', ''.'', ''_'', ''2'', ''punct'',
               ''_'', ''_''],
      '''',
      ''# sent_id = 2'',
      ''# text = The pizza, which I liked, was eaten by me.'',
      tab_line [''1'', ''The'', ''the'', ''DET'', ''DT'',
               ''Definite=Def|PronType=Art'', ''2'', ''det'', ''_'', ''_''],
      tab_line [''2'', ''pizza'', ''pizza'', ''NOUN'', ''NN'', ''Number=Sing'',
               ''9'', ''nsubj:pass'', ''_'', ''SpaceAfter=No''],
      tab_line [''3'', '','', '','', ''PUNCT'', '','', ''_'', ''2'', ''punct'',
               ''_'', ''_''],
      tab_line [''4'', ''which'', ''which'', ''PRON'', ''WDT'', ''PronType=Rel'',
               ''6'', ''obj'', ''_'', ''_''],
      tab_line [''5'', ''I'', ''I'', ''PRON'', ''PRP'',
               ''Case=Nom|Number=Sing|Person=1|PronType=Prs'', ''6'', ''nsubj'',
               ''_'', ''_''],
      tab_line [''6'', ''liked'', ''like'', ''VERB'', ''VBD'',
               ''Mood=Ind|Tense=Past|VerbForm=Fin'', ''2'', ''acl:relcl'', ''_'',
               ''SpaceAfter=No''],
      tab_line [''7'', '','', '','', ''PUNCT'', '','', ''_'', ''9'', ''punct'',
               ''_'', ''_''],
      tab_line [''8'', ''was'', ''be'', ''AUX'', ''VBD'',
               ''Mood=Ind|Number=Sing|Person=3|Tense=Past|VerbForm=Fin'', ''9'',
               ''aux:pass'', ''_'', ''_''],
      tab_line [''9'', ''eaten'', ''eat'', ''VERB'', ''VBN'',
               ''Tense=Past|VerbForm=Part|Voice=Pass'', ''0'', ''root'', ''_'',
               ''_''],
      tab_line [''10'', ''by'', ''by'', ''ADP'', ''IN'', ''_'', ''11'', ''case'',
               ''_'', ''_''],
      tab_line [''11'', ''me'', ''I'', ''PRON'', ''PRP'',
               ''Case=Acc|Number=Sing|Person=1|PronType=Prs'', ''9'', ''obl'', ''_'',
               ''SpaceAfter=No''],
      tab_line [''12'', ''.'', ''.'', ''PUNCT'', ''.'', ''_'', ''9'', ''punct'',
               ''_'', ''SpacesAfter=''],
      '''',
      '''',
      '''']"

text \<open>\<^verbatim>\<open>doc_df = parse_conll(doc)\<close>\<close>

definition doc_df :: "error + row list" where
  "doc_df = parse_conll doc"

text \<open>The seventeen rows of \<^verbatim>\<open>doc_df\<close>, as the notebook prints them.\<close>

definition doc_rows :: "row list" where
  "doc_rows = map to_row
     [(CStr ''doc1'', CStr ''1'',
       [''1'', ''I'', ''I'', ''PRON'', ''PRP'',
       ''Case=Nom|Number=Sing|Person=1|PronType=Prs'', ''2'', ''nsubj'', ''_'',
       ''_'']),
      (CStr ''doc1'', CStr ''1'',
       [''2'', ''eat'', ''eat'', ''VERB'', ''VBP'',
       ''Mood=Ind|Tense=Pres|VerbForm=Fin'', ''0'', ''root'', ''_'', ''_'']),
      (CStr ''doc1'', CStr ''1'',
       [''3'', ''the'', ''the'', ''DET'', ''DT'', ''Definite=Def|PronType=Art'',
       ''4'', ''det'', ''_'', ''_'']),
      (CStr ''doc1'', CStr ''1'',
       [''4'', ''pizza'', ''pizza'', ''NOUN'', ''NN'', ''Number=Sing'', ''2'',
       ''obj'', ''_'', ''SpaceAfter=No'']),
      (CStr ''doc1'', CStr ''1'',
       [''5'', ''.'', ''.'', ''PUNCT'', ''.'', ''_'', ''2'', ''punct'', ''_'',
       ''_'']),
      (CStr ''doc1'', CStr ''2'',
       [''1'', ''The'', ''the'', ''DET'', ''DT'', ''Definite=Def|PronType=Art'',
       ''2'', ''det'', ''_'', ''_'']),
      (CStr ''doc1'', CStr ''2'',
       [''2'', ''pizza'', ''pizza'', ''NOUN'', ''NN'', ''Number=Sing'', ''9'',
       ''nsubj:pass'', ''_'', ''SpaceAfter=No'']),
      (CStr ''doc1'', CStr ''2'',
       [''3'', '','', '','', ''PUNCT'', '','', ''_'', ''2'', ''punct'', ''_'',
       ''_'']),
      (CStr ''doc1'', CStr ''2'',
       [''4'', ''which'', ''which'', ''PRON'', ''WDT'', ''PronType=Rel'', ''6'',
       ''obj'', ''_'', ''_'']),
      (CStr ''doc1'', CStr ''2'',
       [''5'', ''I'', ''I'', ''PRON'', ''PRP'',
       ''Case=Nom|Number=Sing|Person=1|PronType=Prs'', ''6'', ''nsubj'', ''_'',
       ''_'']),
      (CStr ''doc1'', CStr ''2'',
       [''6'', ''liked'', ''like'', ''VERB'', ''VBD'',
       ''Mood=Ind|Tense=Past|VerbForm=Fin'', ''2'', ''acl:relcl'', ''_'',
       ''SpaceAfter=No'']),
      (CStr ''doc1'', CStr ''2'',
       [''7'', '','', '','', ''PUNCT'', '','', ''_'', ''9'', ''punct'', ''_'',
       ''_'']),
      (CStr ''doc1'', CStr ''2'',
       [''8'', ''was'', ''be'', ''AUX'', ''VBD'',
       ''Mood=Ind|Number=Sing|Person=3|Tense=Past|VerbForm=Fin'', ''9'',
       ''aux:pass'', ''_'', ''_'']),
      (CStr ''doc1'', CStr ''2'',
       [''9'', ''eaten'', ''eat'', ''VERB'', ''VBN'',
       ''Tense=Past|VerbForm=Part|Voice=Pass'', ''0'', ''root'', ''_'', ''_'']),
      (CStr ''doc1'', CStr ''2'',
       [''10'', ''by'', ''by'', ''ADP'', ''IN'', ''_'', ''11'', ''case'', ''_'',
       ''_'']),
      (CStr ''doc1'', CStr ''2'',
       [''11'', ''me'', ''I'', ''PRON'', ''PRP'',
       ''Case=Acc|Number=Sing|Person=1|PronType=Prs'', ''9'', ''obl'', ''_'',
       ''SpaceAfter=No'']),
      (CStr ''doc1'', CStr ''2'',
       [''12'', ''.'', ''.'', ''PUNCT'', ''.'', ''_'', ''9'', ''punct'', ''_'',
       ''SpacesAfter=''])]"

section \<open>Notions used in the statements\<close>

text \<open>
  A list is grouped when equal elements are neighbours: after the run of elements equal
  to the first one, that element does not occur again, and the rest is grouped.  A frame
  whose list of keys is grouped holds the rows of each (document, sentence) pair together,
  as \<^verbatim>\<open>parse_conll\<close> lays them out when no identifier is used twice.
\<close>

function grouped :: "'a list \<Rightarrow> bool" where
  "grouped [] = True"
| "grouped (x # xs) =
     (x \<notin> set (dropWhile (\<lambda>y. y = x) xs) \<and> grouped (dropWhile (\<lambda>y. y = x) xs))"
  by pat_completeness auto
termination
  by (relation "measure length") (auto simp: le_imp_less_Suc length_dropWhile_le)

text \<open>The list that \<^verbatim>\<open>calc_mdd\<close> assigns to \<^verbatim>\<open>new_id\<close>, from the list of the keys.\<close>

definition ids_of :: "'k list \<Rightarrow> int list" where
  "ids_of ks = chain_ranges (map (count_list ks) (unique ks))"

text \<open>
  Renumbering the tokens: \<open>f k\<close> maps the text of an index in the sentence with key \<open>k\<close>
  to its new text, in the column \<^verbatim>\<open>id\<close> and in the column \<^verbatim>\<open>head\<close> alike.
\<close>

definition rename ::
  "(cell \<times> cell \<Rightarrow> string option \<Rightarrow> string option) \<Rightarrow> 'a row_scheme \<Rightarrow> 'a row_scheme" where
  "rename f r = r\<lparr>id_col := f (key r) (id_col r), head := f (key r) (head r)\<rparr>"

text \<open>
  The lines that reach the last branch of the loop of \<^verbatim>\<open>parse_conll\<close>, stripped, and
  the number of tab-separated fields of such a line.
\<close>

definition is_data_line :: "string \<Rightarrow> bool" where
  "is_data_line l = (l \<noteq> [] \<and> \<not> startswith l ''#'')"

definition data_lines :: "string \<Rightarrow> string list" where
  "data_lines conll = filter is_data_line (map strip (split_char (CHR 0x0A) conll))"

definition n_fields :: "string \<Rightarrow> nat" where
  "n_fields l = length (split_char (CHR 0x09) l)"

text \<open>
  The comment lines on which \<^verbatim>\<open>parse_conll\<close> raises: the line starts with
  \<^verbatim>\<open># newdoc id =\<close> or with \<^verbatim>\<open># sent_id =\<close>, and the text that the source splits it
  on, which ends with one more space, does not occur in it.
\<close>

definition bad_comment :: "string \<Rightarrow> bool" where
  "bad_comment l =
     ((startswith l ''# newdoc id ='' \<and> split1_snd ''# newdoc id = '' l = None) \<or>
      (startswith l ''# sent_id ='' \<and> split1_snd ''# sent_id = '' l = None))"

text \<open>
  The ten columns of a row that hold the fields of its line.
\<close>

definition fields_of :: "'a row_scheme \<Rightarrow> string option list" where
  "fields_of r =
     [id_col r, token r, lemma_col r, upos r, xpos r, feats r, head r, deprel r, deps r,
      misc r]"

section \<open>Small frames and texts\<close>

text \<open>
  A row with the six columns that \<^verbatim>\<open>calc_mdd\<close> reads (\<^verbatim>\<open>docid\<close>, \<^verbatim>\<open>sentid\<close>, \<^verbatim>\<open>id\<close>,
  \<^verbatim>\<open>token\<close>, \<^verbatim>\<open>upos\<close>, \<^verbatim>\<open>head\<close>); the other six are filled in.
\<close>

definition tok :: "cell \<Rightarrow> cell \<Rightarrow> string \<Rightarrow> string \<Rightarrow> string \<Rightarrow> string \<Rightarrow> row" where
  "tok d s i w p h = to_row (d, s, [i, w, w, p, p, ''_'', h, ''dep'', ''_'', ''_''])"

text \<open>Sentence 1 of document A, interrupted by sentence 2.\<close>

definition interleaved :: "row list" where
  "interleaved =
     [tok (CStr ''A'') (CStr ''1'') ''1'' ''I'' ''PRON'' ''2'',
      tok (CStr ''A'') (CStr ''2'') ''1'' ''Go'' ''VERB'' ''0'',
      tok (CStr ''A'') (CStr ''1'') ''2'' ''run'' ''VERB'' ''0'']"

text \<open>A text that \<^verbatim>\<open>parse_conll\<close> turns into that frame: it uses \<^verbatim>\<open>sent_id = 1\<close> twice.\<close>

definition interleaved_text :: string where
  "interleaved_text = join (CHR 0x0A)
     [''# newdoc id = A'',
      ''# sent_id = 1'',
      tab_line [''1'', ''I'', ''I'', ''PRON'', ''PRON'', ''_'', ''2'', ''dep'', ''_'', ''_''],
      '''',
      ''# sent_id = 2'',
      tab_line [''1'', ''Go'', ''Go'', ''VERB'', ''VERB'', ''_'', ''0'', ''dep'', ''_'', ''_''],
      '''',
      ''# sent_id = 1'',
      tab_line [''2'', ''run'', ''run'', ''VERB'', ''VERB'', ''_'', ''0'', ''dep'', ''_'', ''_'']]"

text \<open>A sentence of one token.\<close>

definition one_token :: "row list" where
  "one_token = [tok (CStr ''A'') (CStr ''1'') ''1'' ''Go'' ''VERB'' ''0'']"

text \<open>Two tokens of one sentence with the same \<^verbatim>\<open>id\<close>.\<close>

definition dup_rows :: "row list" where
  "dup_rows =
     [tok (CStr ''A'') (CStr ''1'') ''1'' ''a'' ''NOUN'' ''1'',
      tok (CStr ''A'') (CStr ''1'') ''1'' ''b'' ''VERB'' ''0'']"

text \<open>
  A text whose second data line is the one field \<^verbatim>\<open>2\<close>, and the frame that
  \<^verbatim>\<open>parse_conll\<close> gives for it: the second row has no \<^verbatim>\<open>token\<close>, no \<^verbatim>\<open>upos\<close> and no
  \<^verbatim>\<open>head\<close>.
\<close>

definition null_token_text :: string where
  "null_token_text = join (CHR 0x0A)
     [''# newdoc id = A'',
      ''# sent_id = 1'',
      tab_line [''1'', ''I'', ''I'', ''PRON'', ''PRP'', ''_'', ''2'', ''nsubj'', ''_'', ''_''],
      ''2'']"

definition null_token_rows :: "row list" where
  "null_token_rows =
     [to_row (CStr ''A'', CStr ''1'',
        [''1'', ''I'', ''I'', ''PRON'', ''PRP'', ''_'', ''2'', ''nsubj'', ''_'', ''_'']),
      to_row (CStr ''A'', CStr ''1'', [''2''])]"



text \<open>A text whose second data line has 9 fields, and a line of 11 fields.\<close>

definition short_line :: string where
  "short_line = join (CHR 0x0A)
     [tab_line [''1'', ''I'', ''I'', ''PRON'', ''PRP'', ''_'', ''2'', ''nsubj'', ''_'', ''_''],
      tab_line [''2'', ''run'', ''run'', ''VERB'', ''VBP'', ''_'', ''0'', ''root'', ''_'']]"

definition long_line :: string where
  "long_line =
     tab_line [''1'', ''I'', ''I'', ''PRON'', ''PRP'', ''_'', ''2'', ''nsubj'', ''_'', ''_'', ''x'']"

text \<open>
  A line of 10 fields followed by one more tab: the line as it is splits into 11 fields,
  the last one empty; stripped, as \<^verbatim>\<open>parse_conll\<close> splits it, into 10.
\<close>

definition trailing_tab :: string where
  "trailing_tab =
     tab_line [''1'', ''Go'', ''go'', ''VERB'', ''VB'', ''_'', ''0'', ''root'', ''_'', ''_'', '''']"

text \<open>
  The document of the notebook with its five punctuation tokens taken out, the tokens of
  the second sentence renumbered from 1 to 9 in the columns \<^verbatim>\<open>id\<close> and \<^verbatim>\<open>head\<close>, and
  an exclamation mark added at its end; \<open>renumber\<close> is the renumbering.
\<close>

definition renumber :: "cell \<times> cell \<Rightarrow> string option \<Rightarrow> string option" where
  "renumber k x =
     (if k = (CStr ''doc1'', CStr ''2'') then
        map_option
          (\<lambda>s. case map_of [(''4'', ''3''), (''5'', ''4''), (''6'', ''5''), (''8'', ''6''),
                              (''9'', ''7''), (''10'', ''8''), (''11'', ''9'')] s of
                  None \<Rightarrow> s
                | Some s' \<Rightarrow> s') x
      else x)"

definition doc_rows_renumbered :: "row list" where
  "doc_rows_renumbered = map to_row
     [(CStr ''doc1'', CStr ''1'',
       [''1'', ''I'', ''I'', ''PRON'', ''PRP'',
       ''Case=Nom|Number=Sing|Person=1|PronType=Prs'', ''2'', ''nsubj'', ''_'',
       ''_'']),
      (CStr ''doc1'', CStr ''1'',
       [''2'', ''eat'', ''eat'', ''VERB'', ''VBP'',
       ''Mood=Ind|Tense=Pres|VerbForm=Fin'', ''0'', ''root'', ''_'', ''_'']),
      (CStr ''doc1'', CStr ''1'',
       [''3'', ''the'', ''the'', ''DET'', ''DT'', ''Definite=Def|PronType=Art'',
       ''4'', ''det'', ''_'', ''_'']),
      (CStr ''doc1'', CStr ''1'',
       [''4'', ''pizza'', ''pizza'', ''NOUN'', ''NN'', ''Number=Sing'', ''2'',
       ''obj'', ''_'', ''SpaceAfter=No'']),
      (CStr ''doc1'', CStr ''2'',
       [''1'', ''The'', ''the'', ''DET'', ''DT'', ''Definite=Def|PronType=Art'',
       ''2'', ''det'', ''_'', ''_'']),
      (CStr ''doc1'', CStr ''2'',
       [''2'', ''pizza'', ''pizza'', ''NOUN'', ''NN'', ''Number=Sing'', ''7'',
       ''nsubj:pass'', ''_'', ''SpaceAfter=No'']),
      (CStr ''doc1'', CStr ''2'',
       [''3'', ''which'', ''which'', ''PRON'', ''WDT'', ''PronType=Rel'', ''5'',
       ''obj'', ''_'', ''_'']),
      (CStr ''doc1'', CStr ''2'',
       [''4'', ''I'', ''I'', ''PRON'', ''PRP'',
       ''Case=Nom|Number=Sing|Person=1|PronType=Prs'', ''5'', ''nsubj'', ''_'',
       ''_'']),
      (CStr ''doc1'', CStr ''2'',
       [''5'', ''liked'', ''like'', ''VERB'', ''VBD'',
       ''Mood=Ind|Tense=Past|VerbForm=Fin'', ''2'', ''acl:relcl'', ''_'',
       ''SpaceAfter=No'']),
      (CStr ''doc1'', CStr ''2'',
       [''6'', ''was'', ''be'', ''AUX'', ''VBD'',
       ''Mood=Ind|Number=Sing|Person=3|Tense=Past|VerbForm=Fin'', ''7'',
       ''aux:pass'', ''_'', ''_'']),
      (CStr ''doc1'', CStr ''2'',
       [''7'', ''eaten'', ''eat'', ''VERB'', ''VBN'',
       ''Tense=Past|VerbForm=Part|Voice=Pass'', ''0'', ''root'', ''_'', ''_'']),
      (CStr ''doc1'', CStr ''2'',
       [''8'', ''by'', ''by'', ''ADP'', ''IN'', ''_'', ''9'', ''case'', ''_'',
       ''_'']),
      (CStr ''doc1'', CStr ''2'',
       [''9'', ''me'', ''I'', ''PRON'', ''PRP'',
       ''Case=Acc|Number=Sing|Person=1|PronType=Prs'', ''7'', ''obl'', ''_'',
       ''SpaceAfter=No'']),
      (CStr ''doc1'', CStr ''2'',
       [''10'', ''!'', ''!'', ''PUNCT'', ''.'', ''_'', ''7'', ''punct'', ''_'',
       ''_''])]"

section \<open>Properties\<close>

subsection \<open>The columns of the frames\<close>

lemma add_new_id_sel:
  "docid (add_new_id r n) = docid r" "sentid (add_new_id r n) = sentid r"
  "id_col (add_new_id r n) = id_col r" "token (add_new_id r n) = token r"
  "head (add_new_id r n) = head r" "upos (add_new_id r n) = upos r"
  "new_id (add_new_id r n) = n" "row.truncate (add_new_id r n) = r"
  by (simp_all add: add_new_id_def row.defs row_new_id.defs)

lemma add_new_head_sel:
  "docid (add_new_head r h) = docid r" "sentid (add_new_head r h) = sentid r"
  "id_col (add_new_head r h) = id_col r" "token (add_new_head r h) = token r"
  "head (add_new_head r h) = head r" "upos (add_new_head r h) = upos r"
  "new_id (add_new_head r h) = new_id r" "new_head (add_new_head r h) = h"
  "row.truncate (add_new_head r h) = row.truncate r"
  by (simp_all add: add_new_head_def row.defs row_new_id.defs row_merged.defs)

lemma add_dd_sel:
  "docid (add_dd r) = docid r" "sentid (add_dd r) = sentid r"
  "id_col (add_dd r) = id_col r" "token (add_dd r) = token r"
  "head (add_dd r) = head r" "upos (add_dd r) = upos r"
  "new_id (add_dd r) = new_id r" "new_head (add_dd r) = new_head r"
  "dd (add_dd r) = map_option (\<lambda>h. \<bar>h - new_id r\<bar>) (new_head r)"
  "row.truncate (add_dd r) = row.truncate r"
  by (simp_all add: add_dd_def row.defs row_new_id.defs row_merged.defs row_dd.defs)

lemma key_add:
  "key (add_new_id r n) = key r" "key (add_new_head r' h) = key r'" "key (add_dd m) = key m"
  by (simp_all add: key_def add_new_id_sel add_new_head_sel add_dd_sel)

lemma notnull_key_add:
  "notnull_key (add_new_id r n) = notnull_key r"
  "notnull_key (add_new_head r' h) = notnull_key r'"
  "notnull_key (add_dd m) = notnull_key m"
  by (simp_all add: notnull_key_def add_new_id_sel add_new_head_sel add_dd_sel)

lemma rename_sel:
  "docid (rename f r) = docid r" "sentid (rename f r) = sentid r"
  "id_col (rename f r) = f (key r) (id_col r)" "token (rename f r) = token r"
  "head (rename f r) = f (key r) (head r)" "upos (rename f r) = upos r"
  "key (rename f r) = key r" "notnull_key (rename f r) = notnull_key r"
  "is_punct (rename f r) = is_punct r"
  by (simp_all add: rename_def key_def notnull_key_def is_punct_def)

lemma rename_ext_sel:
  "new_id (rename f x) = new_id x" "new_head (rename f y) = new_head y" "dd (rename f z) = dd z"
  by (simp_all add: rename_def)

lemma rename_add:
  "add_new_id (rename f r) n = rename f (add_new_id r n)"
  "add_new_head (rename f r') h = rename f (add_new_head r' h)"
  "add_dd (rename f m) = rename f (add_dd m)"
  by (simp_all add: rename_def key_def add_new_id_def add_new_head_def add_dd_def
      row.defs row_new_id.defs row_merged.defs row_dd.defs)

subsection \<open>The numbers assigned to new_id\<close>

lemma set_unique: "set (unique xs) = set xs"
  by (induction xs rule: unique.induct) auto

lemma distinct_unique: "distinct (unique xs)"
  by (induction xs rule: unique.induct) (auto simp: set_unique)

lemma filter_neq_dropWhile:
  "x \<notin> set (dropWhile (\<lambda>y. y = x) xs) \<Longrightarrow>
   filter (\<lambda>y. y \<noteq> x) xs = dropWhile (\<lambda>y. y = x) xs"
  by (induction xs) (auto simp: filter_id_conv)

lemma count_list_takeWhile:
  "count_list (takeWhile (\<lambda>y. y = x) xs) x = length (takeWhile (\<lambda>y. y = x) xs)"
proof (induct xs)
  case Nil
  then show ?case by simp
next
  case (Cons a xs)
  show ?case
  proof (cases "a = x")
    case True
    with Cons show ?thesis by simp
  next
    case False
    then show ?thesis by simp
  qed
qed

lemma count_list_takeWhile_other:
  "k \<noteq> x \<Longrightarrow> count_list (takeWhile (\<lambda>y. y = x) xs) k = 0"
  by (rule count_notin) (auto dest: set_takeWhileD)

lemma ids_of_Cons:
  assumes "x \<notin> set (dropWhile (\<lambda>y. y = x) xs)"
  shows "ids_of (x # xs) =
         [1 .. int (Suc (length (takeWhile (\<lambda>y. y = x) xs)))] @ ids_of (dropWhile (\<lambda>y. y = x) xs)"
proof -
  let ?a = "takeWhile (\<lambda>y. y = x) xs" and ?b = "dropWhile (\<lambda>y. y = x) xs"
  have xs: "xs = ?a @ ?b" by simp
  have u: "unique (x # xs) = x # unique ?b"
    using assms by (simp add: filter_neq_dropWhile)
  have cx: "count_list (x # xs) x = Suc (length ?a)"
  proof -
    have "count_list xs x = count_list ?a x + count_list ?b x"
      by (subst xs) (simp only: count_list_append)
    then show ?thesis using assms by (simp add: count_list_takeWhile)
  qed
  have ck: "count_list (x # xs) k = count_list ?b k" if "k \<in> set (unique ?b)" for k
  proof -
    from that assms have kx: "k \<noteq> x" by (auto simp: set_unique)
    have "count_list xs k = count_list ?a k + count_list ?b k"
      by (subst xs) (simp only: count_list_append)
    then show ?thesis using kx by (simp add: count_list_takeWhile_other)
  qed
  have m: "map (count_list (x # xs)) (unique ?b) = map (count_list ?b) (unique ?b)"
    by (rule map_cong[OF refl]) (rule ck)
  show ?thesis
    unfolding ids_of_def chain_ranges_def u
    by (simp only: list.map concat.simps m cx)
qed

lemma count_list_filter_neq:
  "k \<noteq> x \<Longrightarrow> count_list (filter (\<lambda>y. y \<noteq> x) xs) k = count_list xs k"
  by (induction xs) auto

lemma length_filter_neq:
  "count_list xs x + length (filter (\<lambda>y. y \<noteq> x) xs) = length xs"
  by (induction xs) auto

lemma length_chain_ranges: "length (chain_ranges ns) = sum_list ns"
  by (induction ns) (simp_all add: chain_ranges_def)

lemma sum_counts_unique: "sum_list (map (count_list ks) (unique ks)) = length ks"
proof (induction ks rule: unique.induct)
  case 1
  show ?case by simp
next
  case (2 x xs)
  let ?f = "filter (\<lambda>y. y \<noteq> x) xs"
  have m: "map (count_list (x # xs)) (unique ?f) = map (count_list ?f) (unique ?f)"
  proof (rule map_cong[OF refl])
    fix k assume "k \<in> set (unique ?f)"
    then have "k \<noteq> x" by (auto simp: set_unique)
    then show "count_list (x # xs) k = count_list ?f k"
      by (simp add: count_list_filter_neq)
  qed
  have "sum_list (map (count_list (x # xs)) (unique (x # xs))) =
        count_list (x # xs) x + sum_list (map (count_list (x # xs)) (unique ?f))"
    by simp
  also have "\<dots> = Suc (count_list xs x) + length ?f"
    unfolding m "2.IH" by simp
  finally have e: "sum_list (map (count_list (x # xs)) (unique (x # xs))) =
                   Suc (count_list xs x) + length ?f" .
  show ?case unfolding e using length_filter_neq[of xs x] by simp
qed

lemma length_ids_of: "length (ids_of ks) = length ks"
  by (simp add: ids_of_def length_chain_ranges sum_counts_unique)

lemma filter_zip_all:
  "\<forall>q\<in>set xs. P q \<Longrightarrow> filter (\<lambda>p. P (fst p)) (zip xs ys) = zip xs ys"
  unfolding filter_id_conv by (auto dest!: set_zip_leftD)

lemma filter_zip_none:
  "\<forall>q\<in>set xs. \<not> P q \<Longrightarrow> filter (\<lambda>p. P (fst p)) (zip xs ys) = []"
  unfolding filter_empty_conv by (auto dest!: set_zip_leftD)

lemma filter_all: "\<forall>q\<in>set xs. P q \<Longrightarrow> filter P xs = xs"
  by (simp add: filter_id_conv)

lemma filter_none: "\<forall>q\<in>set xs. \<not> P q \<Longrightarrow> filter P xs = []"
  by (simp add: filter_empty_conv)

lemma filter_zip_grouped:
  "grouped ks \<Longrightarrow> ks = map kf d \<Longrightarrow>
   filter (\<lambda>p. kf (fst p) = k) (zip d (ids_of ks)) =
   zip (filter (\<lambda>r. kf r = k) d) [1 .. int (length (filter (\<lambda>r. kf r = k) d))]"
proof (induction ks arbitrary: d rule: grouped.induct)
  case 1
  then show ?case by simp
next
  case (2 x xs)
  let ?a = "takeWhile (\<lambda>y. y = x) xs" and ?b = "dropWhile (\<lambda>y. y = x) xs"
  from "2.prems"(1) have nx: "x \<notin> set ?b" and g: "grouped ?b" by simp_all
  from "2.prems"(2) obtain r rs where d: "d = r # rs" and kr: "kf r = x" and rs: "xs = map kf rs"
    by (cases d) auto
  let ?da = "takeWhile (\<lambda>r. kf r = x) rs" and ?db = "dropWhile (\<lambda>r. kf r = x) rs"
  have b: "?b = map kf ?db" by (simp add: rs dropWhile_map comp_def)
  have a: "?a = map kf ?da" by (simp add: rs takeWhile_map comp_def)
  have dsplit: "d = (r # ?da) @ ?db" by (simp add: d)
  have la: "length ?a = length ?da" by (simp add: a)
  have all_x: "\<forall>q\<in>set (r # ?da). kf q = x"
    using kr by (auto dest: set_takeWhileD)
  have none_x: "\<forall>q\<in>set ?db. kf q \<noteq> x"
    using nx b by auto
  have IH: "filter (\<lambda>p. kf (fst p) = k) (zip ?db (ids_of ?b)) =
            zip (filter (\<lambda>r. kf r = k) ?db) [1 .. int (length (filter (\<lambda>r. kf r = k) ?db))]"
    by (rule "2.IH"[OF g b])
  have z: "zip d (ids_of (x # xs)) =
           zip (r # ?da) [1 .. int (Suc (length ?da))] @ zip ?db (ids_of ?b)"
  proof -
    have "zip d (ids_of (x # xs)) =
          zip ((r # ?da) @ ?db) ([1 .. int (Suc (length ?da))] @ ids_of ?b)"
      by (subst dsplit) (simp only: ids_of_Cons[OF nx] la)
    also have "\<dots> = zip (r # ?da) [1 .. int (Suc (length ?da))] @ zip ?db (ids_of ?b)"
      by (rule zip_append) simp
    finally show ?thesis .
  qed
  show ?case
  proof (cases "k = x")
    case True
    have f1: "filter (\<lambda>p. kf (fst p) = k) (zip (r # ?da) [1 .. int (Suc (length ?da))]) =
              zip (r # ?da) [1 .. int (Suc (length ?da))]"
      by (rule filter_zip_all) (use all_x True in blast)
    have f2: "filter (\<lambda>r. kf r = k) ?db = []"
      by (rule filter_none) (use none_x True in blast)
    have f0: "filter (\<lambda>r. kf r = k) (r # ?da) = r # ?da"
      by (rule filter_all) (use all_x True in blast)
    have f3: "filter (\<lambda>r. kf r = k) d = r # ?da"
      by (subst dsplit) (simp only: filter_append f0 f2 append_Nil2)
    have "filter (\<lambda>p. kf (fst p) = k) (zip d (ids_of (x # xs))) =
          zip (r # ?da) [1 .. int (Suc (length ?da))]"
      by (simp only: z filter_append f1 IH f2 zip_Nil append_Nil2)
    also have "\<dots> = zip (filter (\<lambda>r. kf r = k) d)
                         [1 .. int (length (filter (\<lambda>r. kf r = k) d))]"
      by (simp only: f3 length_Cons)
    finally show ?thesis .
  next
    case False
    have f1: "filter (\<lambda>p. kf (fst p) = k) (zip (r # ?da) [1 .. int (Suc (length ?da))]) = []"
      by (rule filter_zip_none) (use all_x False in blast)
    have f0: "filter (\<lambda>r. kf r = k) (r # ?da) = []"
      by (rule filter_none) (use all_x False in blast)
    have f3: "filter (\<lambda>r. kf r = k) d = filter (\<lambda>r. kf r = k) ?db"
      by (subst dsplit) (simp only: filter_append f0 append_Nil)
    show ?thesis by (simp only: z filter_append f1 IH f3 append_Nil)
  qed
qed


subsection \<open>set_new_id\<close>

lemma group_sizes_notnull:
  "\<forall>r\<in>set d. notnull_key r \<Longrightarrow> chain_ranges (group_sizes d) = ids_of (map key d)"
  by (simp add: group_sizes_def ids_of_def Let_def filter_all)

lemma length_group_ids:
  "length (chain_ranges (group_sizes d)) = length (filter notnull_key d)"
  using length_ids_of[of "map key (filter notnull_key d)"]
  by (simp add: group_sizes_def ids_of_def Let_def)

lemma set_new_id_eq:
  "set_new_id d =
     (if \<forall>r\<in>set d. notnull_key r then Inr (map2 add_new_id d (ids_of (map key d)))
      else Inl ValueError)"
proof (cases "\<forall>r\<in>set d. notnull_key r")
  case True
  then show ?thesis
    by (simp add: set_new_id_def Let_def group_sizes_notnull length_ids_of)
next
  case False
  then have "length (filter notnull_key d) \<noteq> length d"
    by (metis length_filter_less less_irrefl)
  with False show ?thesis
    by (simp add: set_new_id_def Let_def length_group_ids)
qed

lemma map2_truncate:
  "length ns = length d \<Longrightarrow> map row.truncate (map2 add_new_id d ns) = d"
  by (induction d ns rule: list_induct2') (simp_all add: add_new_id_sel)

lemma filter_map2_key:
  "filter (\<lambda>r. key r = k) (map2 add_new_id d ns) =
   map2 add_new_id (map fst (filter (\<lambda>p. key (fst p) = k) (zip d ns)))
                   (map snd (filter (\<lambda>p. key (fst p) = k) (zip d ns)))"
  by (induction d ns rule: list_induct2') (simp_all add: key_add)

lemma numbered_group:
  assumes "grouped (map key d)"
  shows "filter (\<lambda>r. key r = k) (map2 add_new_id d (ids_of (map key d))) =
         map2 add_new_id (filter (\<lambda>r. key r = k) d)
           [1 .. int (length (filter (\<lambda>r. key r = k) d))]"
proof -
  let ?g = "filter (\<lambda>r. key r = k) d"
  have z: "filter (\<lambda>p. key (fst p) = k) (zip d (ids_of (map key d))) =
           zip ?g [1 .. int (length ?g)]"
    by (rule filter_zip_grouped[OF assms refl])
  show ?thesis
    unfolding filter_map2_key z by simp
qed

lemma map_new_id_map2:
  "length ns = length g \<Longrightarrow> map new_id (map2 add_new_id g ns) = ns"
  by (induction g ns rule: list_induct2') (simp_all add: add_new_id_sel)

text \<open>
  \<^verbatim>\<open>calc_mdd\<close> writes the numbers \<open>1, \<dots>, k\<close> of each group one group after the
  other, in the order in which the groups first occur, and assigns that list to the rows
  by position.  When the rows of every group of kept tokens are consecutive in the frame
  and no key is null, the step succeeds, changes no other column, and the values of
  \<^verbatim>\<open>new_id\<close> in each group, read in the order of the rows, are \<open>1, \<dots>, k\<close> with \<open>k\<close> the
  number of kept tokens of the group.
\<close>

lemma new_id_contiguous:
  assumes "grouped (map key (drop_punct d))" and "\<forall>r\<in>set (drop_punct d). notnull_key r"
  shows "\<exists>d1. set_new_id (drop_punct d) = Inr d1 \<and> map row.truncate d1 = drop_punct d \<and>
           (\<forall>k. map new_id (filter (\<lambda>r. key r = k) d1) =
                [1 .. int (length (filter (\<lambda>r. key r = k) (drop_punct d)))])"
proof -
  let ?e = "drop_punct d"
  let ?d1 = "map2 add_new_id ?e (ids_of (map key ?e))"
  have 1: "set_new_id ?e = Inr ?d1"
    using assms(2) by (simp add: set_new_id_eq)
  have 2: "map row.truncate ?d1 = ?e"
    by (rule map2_truncate) (simp add: length_ids_of)
  have 3: "map new_id (filter (\<lambda>r. key r = k) ?d1) =
           [1 .. int (length (filter (\<lambda>r. key r = k) ?e))]" for k
    unfolding numbered_group[OF assms(1)] by (rule map_new_id_map2) simp
  from 1 2 3 show ?thesis by blast
qed

subsection \<open>One sentence on its own\<close>

lemma grouped_const: "\<forall>y\<in>set ks. y = k \<Longrightarrow> grouped ks"
proof (cases ks)
  case Nil
  then show ?thesis by simp
next
  case (Cons x xs)
  assume "\<forall>y\<in>set ks. y = k"
  with Cons have "dropWhile (\<lambda>y. y = x) xs = []" by simp
  then have "grouped (x # xs)" by (simp only: grouped.simps list.set empty_iff) simp
  with Cons show ?thesis by simp
qed

lemma filter_map2_all:
  "\<forall>r\<in>set g. key r = k \<Longrightarrow>
   filter (\<lambda>r. key r = k) (map2 add_new_id g ns) = map2 add_new_id g ns"
  by (induction g ns rule: list_induct2') (simp_all add: key_add)

lemma numbered_filter:
  assumes "grouped (map key e)"
  shows "map2 add_new_id (filter (\<lambda>r. key r = k) e)
           (ids_of (map key (filter (\<lambda>r. key r = k) e))) =
         filter (\<lambda>r. key r = k) (map2 add_new_id e (ids_of (map key e)))"
proof -
  let ?g = "filter (\<lambda>r. key r = k) e"
  have all: "\<forall>r\<in>set ?g. key r = k" by simp
  then have gg: "grouped (map key ?g)" by (intro grouped_const[of _ k]) simp
  have idem: "filter (\<lambda>r. key r = k) ?g = ?g" by simp
  have "map2 add_new_id ?g (ids_of (map key ?g)) =
        filter (\<lambda>r. key r = k) (map2 add_new_id ?g (ids_of (map key ?g)))"
    by (rule filter_map2_all[OF all, symmetric])
  also have "\<dots> = map2 add_new_id ?g [1 .. int (length ?g)]"
    using numbered_group[OF gg, of k] by (simp only: idem)
  also have "\<dots> = filter (\<lambda>r. key r = k) (map2 add_new_id e (ids_of (map key e)))"
    by (rule numbered_group[OF assms, symmetric])
  finally show ?thesis .
qed

lemma merge_row_key: "m \<in> set (merge_row ref l) \<Longrightarrow> key m = key l"
  by (auto simp: merge_row_def Let_def key_add split: if_splits)

lemma merge_row_restrict:
  "merge_row (filter (\<lambda>r. key r = key l) ref) l = merge_row ref l"
proof -
  have "filter (\<lambda>r. docid r = docid l \<and> sentid r = sentid l \<and> id_col r = head l)
          (filter (\<lambda>r. key r = key l) ref) =
        filter (\<lambda>r. docid r = docid l \<and> sentid r = sentid l \<and> id_col r = head l) ref"
    unfolding filter_filter by (rule filter_cong[OF refl]) (auto simp: key_def)
  then show ?thesis by (simp only: merge_row_def)
qed

lemma concat_map_if:
  "concat (map (\<lambda>x. if P x then f x else []) xs) = concat (map f (filter P xs))"
  by (induction xs) simp_all

lemma filter_merge_left:
  "filter (\<lambda>m. key m = k) (merge_left d1) = merge_left (filter (\<lambda>r. key r = k) d1)"
proof -
  let ?dk = "filter (\<lambda>r. key r = k) d1"
  have step: "filter (\<lambda>m. key m = k) (merge_row d1 l) =
              (if key l = k then merge_row ?dk l else [])" for l
  proof (cases "key l = k")
    case True
    have "filter (\<lambda>m. key m = k) (merge_row d1 l) = merge_row d1 l"
    proof (rule filter_all, rule ballI)
      fix q assume "q \<in> set (merge_row d1 l)"
      then have "key q = key l" by (rule merge_row_key)
      with True show "key q = k" by simp
    qed
    also have "\<dots> = merge_row ?dk l"
      using merge_row_restrict[of l d1] True by simp
    finally show ?thesis using True by simp
  next
    case False
    have "filter (\<lambda>m. key m = k) (merge_row d1 l) = []"
    proof (rule filter_none, rule ballI)
      fix q assume "q \<in> set (merge_row d1 l)"
      then have "key q = key l" by (rule merge_row_key)
      with False show "key q \<noteq> k" by simp
    qed
    then show ?thesis using False by simp
  qed
  have "filter (\<lambda>m. key m = k) (merge_left d1) =
        concat (map (\<lambda>l. filter (\<lambda>m. key m = k) (merge_row d1 l)) d1)"
    by (simp add: merge_left_def filter_concat comp_def)
  also have "\<dots> = concat (map (\<lambda>l. if key l = k then merge_row ?dk l else []) d1)"
    by (simp only: step)
  also have "\<dots> = concat (map (merge_row ?dk) ?dk)"
    by (rule concat_map_if)
  finally show ?thesis by (simp only: merge_left_def)
qed

lemma filter_add_dd:
  "filter (\<lambda>m. key m = k) (map add_dd ms) = map add_dd (filter (\<lambda>m. key m = k) ms)"
  by (simp add: filter_map comp_def key_add)

lemma drop_punct_filter:
  "drop_punct (filter P d) = filter P (drop_punct d)"
  by (auto simp: drop_punct_def intro: filter_cong)

lemma dd_frame_eq:
  "dd_frame d =
     (if \<forall>r\<in>set (drop_punct d). notnull_key r
      then Inr (map add_dd (merge_left
             (map2 add_new_id (drop_punct d) (ids_of (map key (drop_punct d))))))
      else Inl ValueError)"
  by (simp add: dd_frame_def set_new_id_eq)


lemma dd_frame_sentence:
  assumes "grouped (map key (drop_punct d))" and "dd_frame d = Inr m"
  shows "dd_frame (filter (\<lambda>r. key r = k) d) = Inr (filter (\<lambda>r. key r = k) m)"
proof -
  let ?e = "drop_punct d"
  from assms(2) have nn: "\<forall>r\<in>set ?e. notnull_key r"
    and m: "m = map add_dd (merge_left (map2 add_new_id ?e (ids_of (map key ?e))))"
    by (auto simp: dd_frame_eq split: if_splits)
  have nn': "\<forall>r\<in>set (drop_punct (filter (\<lambda>r. key r = k) d)). notnull_key r"
    using nn by (simp add: drop_punct_filter)
  show ?thesis
    using nn'
    by (simp add: dd_frame_eq[of "filter (\<lambda>r. key r = k) d"] drop_punct_filter
        numbered_filter[OF assms(1)] m filter_add_dd filter_merge_left)
qed

lemma remdups_const:
  "\<forall>y\<in>set ks. y = k \<Longrightarrow> remdups ks = (if ks = [] then [] else [k])"
proof (induction ks)
  case Nil
  show ?case by simp
next
  case (Cons x xs)
  then have x: "x = k" and xs: "\<forall>y\<in>set xs. y = k" by simp_all
  show ?case
  proof (cases xs)
    case Nil
    with x show ?thesis by simp
  next
    case (Cons y ys)
    with xs have "k \<in> set xs" by auto
    with Cons.IH[OF xs] Cons x show ?thesis by simp
  qed
qed

lemma filter_eq_distinct:
  "distinct xs \<Longrightarrow> filter (\<lambda>y. y = k) xs = (if k \<in> set xs then [k] else [])"
  by (induction xs) (auto simp: filter_empty_conv)

lemma sent_row_key: "(s_docid (sent_row m k), s_sentid (sent_row m k)) = k"
  by (simp add: sent_row_def Let_def)

lemma sent_row_filter: "sent_row (filter (\<lambda>r. key r = k) m) k = sent_row m k"
  by (simp add: sent_row_def)

lemma agg_by_sentence_filter:
  "agg_by_sentence (filter (\<lambda>r. key r = k) m) =
   filter (\<lambda>x. (s_docid x, s_sentid x) = k) (agg_by_sentence m)"
proof -
  let ?mk = "filter (\<lambda>r. key r = k) m"
  let ?K = "sort (remdups (map key (filter notnull_key m)))"
  let ?ks = "map key (filter notnull_key ?mk)"
  have const: "\<forall>y\<in>set ?ks. y = k" by auto
  have lhs: "agg_by_sentence ?mk = (if ?ks = [] then [] else [sent_row m k])"
    unfolding agg_by_sentence_def remdups_const[OF const]
    by (simp add: sent_row_filter)
  have dK: "distinct ?K" by simp
  have "filter (\<lambda>x. (s_docid x, s_sentid x) = k) (agg_by_sentence m) =
        map (sent_row m) (filter (\<lambda>k'. k' = k) ?K)"
    by (simp add: agg_by_sentence_def filter_map comp_def sent_row_key)
  also have "\<dots> = (if k \<in> set ?K then [sent_row m k] else [])"
    unfolding filter_eq_distinct[OF dK] by simp
  finally have rhs: "filter (\<lambda>x. (s_docid x, s_sentid x) = k) (agg_by_sentence m) =
                     (if k \<in> set ?K then [sent_row m k] else [])" .
  have "(?ks = []) = (k \<notin> set ?K)"
    by (auto simp: filter_empty_conv)
  with lhs rhs show ?thesis by simp
qed

text \<open>
  When the rows of every group of kept tokens are consecutive in the frame and no key is
  null, \<^verbatim>\<open>calc_mdd\<close> by sentence on the rows of one sentence alone returns exactly the
  rows that \<^verbatim>\<open>calc_mdd\<close> by sentence on the whole frame returns for that sentence: the
  same \<open>sum_dd\<close>, \<open>n_tokens\<close> and \<open>mdd\<close> (and no row when the sentence keeps no token).
\<close>

lemma sentence_round_trip:
  assumes "grouped (map key (drop_punct d))" and "\<forall>r\<in>set (drop_punct d). notnull_key r"
  shows "\<exists>a. calc_mdd d True = Inr (BySentence a) \<and>
             calc_mdd (filter (\<lambda>r. key r = k) d) True =
               Inr (BySentence (filter (\<lambda>x. (s_docid x, s_sentid x) = k) a))"
proof -
  from assms(2) obtain m where m: "dd_frame d = Inr m"
    by (simp add: dd_frame_eq)
  have s: "dd_frame (filter (\<lambda>r. key r = k) d) = Inr (filter (\<lambda>r. key r = k) m)"
    by (rule dd_frame_sentence[OF assms(1) m])
  have "calc_mdd d True = Inr (BySentence (agg_by_sentence m))"
    by (simp add: calc_mdd_def m)
  moreover have "calc_mdd (filter (\<lambda>r. key r = k) d) True =
      Inr (BySentence (filter (\<lambda>x. (s_docid x, s_sentid x) = k) (agg_by_sentence m)))"
    by (simp add: calc_mdd_def s agg_by_sentence_filter)
  ultimately show ?thesis by blast
qed

subsection \<open>Renumbering\<close>

lemma group_sizes_rename: "group_sizes (map (rename f) e) = group_sizes e"
  by (simp add: group_sizes_def filter_map comp_def rename_sel)

lemma map2_rename:
  "map2 add_new_id (map (rename f) e) ns = map (rename f) (map2 add_new_id e ns)"
  by (induction e ns rule: list_induct2') (simp_all add: rename_add)

lemma set_new_id_rename:
  "set_new_id (map (rename f) e) = map_sum id (map (rename f)) (set_new_id e)"
  by (simp add: set_new_id_def Let_def group_sizes_rename map2_rename)

lemma in_map2_add_new_id:
  "r \<in> set (map2 add_new_id e ns) \<Longrightarrow> \<exists>r0\<in>set e. \<exists>n. r = add_new_id r0 n"
  by (induction e ns rule: list_induct2') auto

lemma merge_row_rename:
  assumes "\<forall>r\<in>set d1. key r = key l \<longrightarrow>
             (f (key r) (id_col r) = f (key l) (head l)) = (id_col r = head l)"
  shows "merge_row (map (rename f) d1) (rename f l) = map (rename f) (merge_row d1 l)"
proof -
  have "filter (\<lambda>r. docid (rename f r) = docid (rename f l) \<and>
                     sentid (rename f r) = sentid (rename f l) \<and>
                     id_col (rename f r) = head (rename f l)) d1 =
        filter (\<lambda>r. docid r = docid l \<and> sentid r = sentid l \<and> id_col r = head l) d1"
  proof (rule filter_cong[OF refl])
    fix r assume r: "r \<in> set d1"
    show "(docid (rename f r) = docid (rename f l) \<and>
           sentid (rename f r) = sentid (rename f l) \<and>
           id_col (rename f r) = head (rename f l)) =
          (docid r = docid l \<and> sentid r = sentid l \<and> id_col r = head l)"
    proof (cases "key r = key l")
      case True
      with assms r have "(f (key r) (id_col r) = f (key l) (head l)) = (id_col r = head l)"
        by blast
      with True show ?thesis by (simp add: rename_sel key_def)
    next
      case False
      then show ?thesis by (auto simp: rename_sel key_def)
    qed
  qed
  then show ?thesis
    by (simp add: merge_row_def Let_def filter_map comp_def rename_ext_sel rename_add)
qed

lemma merge_left_rename:
  assumes "\<forall>r\<in>set d1. \<forall>l\<in>set d1. key r = key l \<longrightarrow>
             (f (key r) (id_col r) = f (key l) (head l)) = (id_col r = head l)"
  shows "merge_left (map (rename f) d1) = map (rename f) (merge_left d1)"
proof -
  have "map (merge_row (map (rename f) d1) \<circ> rename f) d1 =
        map (map (rename f) \<circ> merge_row d1) d1"
  proof (rule map_cong[OF refl])
    fix l assume "l \<in> set d1"
    with assms have "\<forall>r\<in>set d1. key r = key l \<longrightarrow>
             (f (key r) (id_col r) = f (key l) (head l)) = (id_col r = head l)"
      by blast
    then show "(merge_row (map (rename f) d1) \<circ> rename f) l =
               (map (rename f) \<circ> merge_row d1) l"
      by (simp add: merge_row_rename)
  qed
  then show ?thesis
    by (simp only: merge_left_def map_concat map_map)
qed

lemma sent_row_rename: "sent_row (map (rename f) m) k = sent_row m k"
  by (simp add: sent_row_def Let_def filter_map comp_def rename_sel rename_ext_sel)

lemma agg_by_sentence_rename: "agg_by_sentence (map (rename f) m) = agg_by_sentence m"
  by (simp add: agg_by_sentence_def filter_map comp_def rename_sel sent_row_rename)

lemma doc_row_rename: "doc_row (map (rename f) m) k = doc_row m k"
  by (simp add: doc_row_def Let_def filter_map comp_def rename_sel rename_ext_sel)

lemma agg_by_document_rename: "agg_by_document (map (rename f) m) = agg_by_document m"
  by (simp add: agg_by_document_def filter_map comp_def rename_sel doc_row_rename)

lemma dd_frame_rename:
  assumes "drop_punct d' = map (rename f) (drop_punct d)"
    and "\<forall>r\<in>set (drop_punct d). \<forall>l\<in>set (drop_punct d). key r = key l \<longrightarrow>
           (f (key r) (id_col r) = f (key l) (head l)) = (id_col r = head l)"
  shows "dd_frame d' = map_sum id (map (rename f)) (dd_frame d)"
proof (cases "set_new_id (drop_punct d)")
  case (Inl e)
  then show ?thesis
    by (simp add: dd_frame_def assms(1) set_new_id_rename)
next
  case (Inr d1)
  then have d1: "d1 = map2 add_new_id (drop_punct d) (ids_of (map key (drop_punct d)))"
    by (auto simp: set_new_id_eq split: if_splits)
  have cons: "\<forall>r\<in>set d1. \<forall>l\<in>set d1. key r = key l \<longrightarrow>
             (f (key r) (id_col r) = f (key l) (head l)) = (id_col r = head l)"
  proof (intro ballI impI)
    fix r l assume r: "r \<in> set d1" and l: "l \<in> set d1" and k: "key r = key l"
    from r obtain r0 n where r0: "r0 \<in> set (drop_punct d)" "r = add_new_id r0 n"
      unfolding d1 by (blast dest: in_map2_add_new_id)
    from l obtain l0 n' where l0: "l0 \<in> set (drop_punct d)" "l = add_new_id l0 n'"
      unfolding d1 by (blast dest: in_map2_add_new_id)
    from k r0 l0 have "key r0 = key l0" by (simp add: key_add)
    with assms(2) r0(1) l0(1)
    have "(f (key r0) (id_col r0) = f (key l0) (head l0)) = (id_col r0 = head l0)"
      by blast
    then show "(f (key r) (id_col r) = f (key l) (head l)) = (id_col r = head l)"
      by (simp add: r0(2) l0(2) key_add add_new_id_sel)
  qed
  show ?thesis
    by (simp add: dd_frame_def assms(1) set_new_id_rename Inr merge_left_rename[OF cons]
        comp_def rename_add)
qed

lemma drop_punct_char:
  "drop_punct d = filter (\<lambda>r. \<forall>s. upos r = Some s \<longrightarrow> lower s \<noteq> ''punct'') d"
  by (auto simp: drop_punct_def is_punct_def intro!: filter_cong)

text \<open>
  Claim C9.  The filter keeps exactly the rows whose \<^verbatim>\<open>upos\<close> is not, in lower case,
  \<^verbatim>\<open>punct\<close>.  Let the frame \<open>d'\<close> come from the frame \<open>d\<close> by taking out or putting in
  punctuation rows anywhere and renumbering the kept tokens by \<open>f\<close>, such that after the
  renumbering the head of a kept token is another kept token of its sentence exactly when
  it was before.  Then \<^verbatim>\<open>calc_mdd\<close> returns the same for \<open>d'\<close> and \<open>d\<close> (so every
  \<open>sum_dd\<close> is the same), and the kept tokens get the same \<^verbatim>\<open>new_id\<close>, row by row.
\<close>

theorem punctuation_exclusion:
  assumes "drop_punct d' = map (rename f) (drop_punct d)"
    and "\<forall>r\<in>set (drop_punct d). \<forall>l\<in>set (drop_punct d). key r = key l \<longrightarrow>
           (f (key r) (id_col r) = f (key l) (head l)) = (id_col r = head l)"
  shows "drop_punct d = filter (\<lambda>r. \<forall>s. upos r = Some s \<longrightarrow> lower s \<noteq> ''punct'') d \<and>
         calc_mdd d' b = calc_mdd d b \<and>
         map_sum id (map new_id) (set_new_id (drop_punct d')) =
           map_sum id (map new_id) (set_new_id (drop_punct d))"
proof -
  have 1: "dd_frame d' = map_sum id (map (rename f)) (dd_frame d)"
    by (rule dd_frame_rename[OF assms])
  have 2: "calc_mdd d' b = calc_mdd d b"
    by (cases "dd_frame d")
       (simp_all add: calc_mdd_def 1 agg_by_sentence_rename agg_by_document_rename)
  have 3: "map_sum id (map new_id) (set_new_id (drop_punct d')) =
           map_sum id (map new_id) (set_new_id (drop_punct d))"
    by (cases "set_new_id (drop_punct d)")
       (simp_all add: assms(1) set_new_id_rename comp_def rename_ext_sel)
  from drop_punct_char 2 3 show ?thesis by blast
qed

subsection \<open>Rows of the aggregated frame\<close>

lemma truncate_sel:
  "docid (row.truncate r) = docid r" "sentid (row.truncate r) = sentid r"
  "id_col (row.truncate r) = id_col r" "token (row.truncate r) = token r"
  "head (row.truncate r) = head r" "upos (row.truncate r) = upos r"
  "key (row.truncate r) = key r"
  by (simp_all add: row.defs key_def)


lemma in_merge_row:
  assumes "x \<in> set (merge_row ref l)"
  shows "key x = key l \<and> head x = head l \<and> token x = token l \<and> new_id x = new_id l \<and>
         (new_head x = None \<or>
          (\<exists>r\<in>set ref. key r = key l \<and> id_col r = head l \<and> new_head x = Some (new_id r)))"
  using assms
  by (auto simp: merge_row_def Let_def key_def add_new_head_sel split: if_splits)

lemma merge_row_nonempty: "merge_row ref l \<noteq> []"
  by (simp add: merge_row_def Let_def)

lemma in_dd_frame:
  assumes "dd_frame d = Inr m" and "r \<in> set m"
  shows "\<exists>d1 l x. set_new_id (drop_punct d) = Inr d1 \<and> l \<in> set d1 \<and>
           x \<in> set (merge_row d1 l) \<and> r = add_dd x"
proof -
  from assms(1) obtain d1 where d1: "set_new_id (drop_punct d) = Inr d1"
    and m: "m = map add_dd (merge_left d1)"
    by (auto simp: dd_frame_def split: sum.splits)
  from assms(2) m obtain x where x: "x \<in> set (merge_left d1)" "r = add_dd x" by auto
  from x(1) obtain l where "l \<in> set d1" "x \<in> set (merge_row d1 l)"
    by (auto simp: merge_left_def)
  with d1 x(2) show ?thesis by blast
qed

lemma set_new_id_rows:
  assumes "set_new_id e = Inr d1" and "l \<in> set d1"
  shows "\<exists>r0\<in>set e. \<exists>n. l = add_new_id r0 n"
proof -
  from assms(1) have "d1 = map2 add_new_id e (ids_of (map key e))"
    by (auto simp: set_new_id_eq split: if_splits)
  with assms(2) show ?thesis by (blast dest: in_map2_add_new_id)
qed

lemma dd_frame_row:
  assumes "dd_frame d = Inr m" and "r \<in> set m"
  shows "\<exists>r0\<in>set (drop_punct d). key r = key r0 \<and> head r = head r0 \<and> token r = token r0"
proof -
  from in_dd_frame[OF assms] obtain d1 l x where
    d1: "set_new_id (drop_punct d) = Inr d1" and l: "l \<in> set d1"
    and x: "x \<in> set (merge_row d1 l)" and r: "r = add_dd x" by blast
  from set_new_id_rows[OF d1 l] obtain r0 n where
    r0: "r0 \<in> set (drop_punct d)" "l = add_new_id r0 n" by blast
  from in_merge_row[OF x] have "key x = key l" "head x = head l" "token x = token l"
    by simp_all
  with r r0 show ?thesis
    by (auto simp: key_add add_dd_sel add_new_id_sel)
qed

lemma dd_frame_notnull:
  assumes "dd_frame d = Inr m" and "r \<in> set m"
  shows "notnull_key r"
proof -
  from dd_frame_row[OF assms] obtain r0 where
    r0: "r0 \<in> set (drop_punct d)" "key r = key r0" by blast
  from assms(1) have "\<forall>r\<in>set (drop_punct d). notnull_key r"
    by (auto simp: dd_frame_eq split: if_splits)
  with r0 show ?thesis by (auto simp: notnull_key_def key_def)
qed

lemma dd_nonneg:
  assumes "dd_frame d = Inr m" and "r \<in> set m" and "dd r = Some v"
  shows "0 \<le> v"
proof -
  from in_dd_frame[OF assms(1,2)] obtain x where "r = add_dd x" by blast
  with assms(3) show ?thesis by (auto simp: add_dd_sel)
qed

lemma sum_skipna_nonneg:
  "\<forall>x\<in>set xs. \<forall>v. x = Some v \<longrightarrow> 0 \<le> v \<Longrightarrow> 0 \<le> sum_skipna xs"
  by (induction xs rule: sum_skipna.induct) auto

lemma sum_dd_nonneg:
  assumes "dd_frame d = Inr m"
  shows "0 \<le> sum_skipna (map dd (filter P m))"
  by (rule sum_skipna_nonneg) (use dd_nonneg[OF assms] in auto)

subsection \<open>One row for each token\<close>

lemma filter_distinct_map:
  "distinct (map g xs) \<Longrightarrow> length (filter (\<lambda>r. g r = v) xs) \<le> 1"
proof (induction xs)
  case Nil
  show ?case by simp
next
  case (Cons x xs)
  show ?case
  proof (cases "g x = v")
    case True
    from Cons.prems have "g x \<notin> g ` set xs" by simp
    with True have "\<forall>r\<in>set xs. g r \<noteq> v" by blast
    then have "filter (\<lambda>r. g r = v) xs = []"
      by (simp add: filter_empty_conv)
    with True show ?thesis by simp
  next
    case False
    with Cons show ?thesis by simp
  qed
qed

lemma merge_row_single:
  assumes "distinct (map (\<lambda>r. (key r, id_col r)) ref)"
  shows "\<exists>h. merge_row ref l = [add_new_head l h]"
proof -
  let ?ms = "filter (\<lambda>r. docid r = docid l \<and> sentid r = sentid l \<and> id_col r = head l) ref"
  have "?ms = filter (\<lambda>r. (key r, id_col r) = (key l, head l)) ref"
    by (rule filter_cong[OF refl]) (auto simp: key_def)
  then have "length ?ms \<le> 1"
    using filter_distinct_map[OF assms, of "(key l, head l)"] by simp
  then have "?ms = [] \<or> (\<exists>r. ?ms = [r])"
    by (cases ?ms) (auto simp: length_Suc_conv)
  then show ?thesis
    by (auto simp: merge_row_def Let_def)
qed

lemma merge_left_truncate:
  assumes "distinct (map (\<lambda>r. (key r, id_col r)) ref)"
  shows "map row.truncate (concat (map (merge_row ref) ls)) = map row.truncate ls"
proof (induction ls)
  case Nil
  show ?case by simp
next
  case (Cons l ls)
  from merge_row_single[OF assms, of l] obtain h where "merge_row ref l = [add_new_head l h]"
    by blast
  with Cons show ?case by (simp add: add_new_head_sel)
qed

lemma map2_key_id:
  "length ns = length e \<Longrightarrow>
   map (\<lambda>r. (key r, id_col r)) (map2 add_new_id e ns) = map (\<lambda>r. (key r, id_col r)) e"
  by (induction e ns rule: list_induct2') (simp_all add: key_add add_new_id_sel)

lemma dd_frame_truncate:
  assumes "distinct (map (\<lambda>r. (key r, id_col r)) (drop_punct d))" and "dd_frame d = Inr m"
  shows "map row.truncate m = drop_punct d"
proof -
  let ?e = "drop_punct d"
  let ?d1 = "map2 add_new_id ?e (ids_of (map key ?e))"
  from assms(2) have m: "m = map add_dd (merge_left ?d1)"
    by (auto simp: dd_frame_eq split: if_splits)
  have len: "length (ids_of (map key ?e)) = length ?e"
    by (simp add: length_ids_of)
  have dist: "distinct (map (\<lambda>r. (key r, id_col r)) ?d1)"
    by (simp only: map2_key_id[OF len] assms(1))
  have "map row.truncate m = map row.truncate (merge_left ?d1)"
    by (simp add: m comp_def add_dd_sel)
  also have "\<dots> = map row.truncate ?d1"
    unfolding merge_left_def by (rule merge_left_truncate[OF dist])
  also have "\<dots> = ?e"
    by (rule map2_truncate) (simp add: length_ids_of)
  finally show ?thesis .
qed

lemma map_token_truncate:
  "map token (filter P (map row.truncate m)) = map token (filter (P \<circ> row.truncate) m)"
  by (simp add: filter_map comp_def truncate_sel)

lemma tokens_of_group:
  assumes "distinct (map (\<lambda>r. (key r, id_col r)) (drop_punct d))" and "dd_frame d = Inr m"
  shows "map token (filter (\<lambda>r. P (row.truncate r)) m) = map token (filter P (drop_punct d))"
  using map_token_truncate[of P m] dd_frame_truncate[OF assms] by (simp add: comp_def)

lemma count_all_tokens:
  assumes "\<forall>r\<in>set e. token r \<noteq> None"
  shows "count_notnull (map token (filter P e)) = int (length (filter P e))"
proof -
  have "filter (\<lambda>x. x \<noteq> None) (map token (filter P e)) = map token (filter P e)"
    by (rule filter_all) (use assms in auto)
  then show ?thesis by (simp add: count_notnull_def)
qed

lemma n_tokens_sentence:
  assumes "distinct (map (\<lambda>r. (key r, id_col r)) (drop_punct d))" and "dd_frame d = Inr m"
  shows "s_n_tokens (sent_row m k) =
         count_notnull (map token (filter (\<lambda>r. key r = k) (drop_punct d)))"
  using tokens_of_group[OF assms, of "\<lambda>r. key r = k"]
  by (simp add: sent_row_def Let_def truncate_sel)

lemma n_tokens_document:
  assumes "distinct (map (\<lambda>r. (key r, id_col r)) (drop_punct d))" and "dd_frame d = Inr m"
  shows "d_n_tokens (doc_row m c) =
         count_notnull (map token (filter (\<lambda>r. docid r = c) (drop_punct d)))"
  using tokens_of_group[OF assms, of "\<lambda>r. docid r = c"]
  by (simp add: doc_row_def Let_def truncate_sel)

subsection \<open>The formula\<close>

lemma in_agg_by_sentence:
  assumes "a \<in> set (agg_by_sentence m)"
  shows "a = sent_row m (s_docid a, s_sentid a) \<and>
         (\<exists>r\<in>set m. key r = (s_docid a, s_sentid a))"
proof -
  from assms obtain k where k: "a = sent_row m k" "k \<in> set (map key (filter notnull_key m))"
    by (auto simp: agg_by_sentence_def)
  from k(1) have "(s_docid a, s_sentid a) = k" by (simp add: sent_row_key)
  with k show ?thesis by auto
qed

lemma doc_row_key: "d_docid (doc_row m k) = k"
  by (simp add: doc_row_def Let_def)

lemma in_agg_by_document:
  assumes "a \<in> set (agg_by_document m)"
  shows "a = doc_row m (d_docid a) \<and> (\<exists>r\<in>set m. docid r = d_docid a)"
proof -
  from assms obtain k where
    k: "a = doc_row m k" "k \<in> set (map docid (filter (\<lambda>r. notnull (docid r)) m))"
    by (auto simp: agg_by_document_def)
  from k(1) have "d_docid a = k" by (simp add: doc_row_key)
  with k show ?thesis by auto
qed

lemma count_notnull_length:
  "count_notnull (map token g) = int (length (filter (\<lambda>r. token r \<noteq> None) g))"
  by (simp add: count_notnull_def filter_map comp_def)

lemma nunique_card:
  "\<forall>r\<in>set g. notnull (sentid r) \<Longrightarrow> nunique (map sentid g) = int (card (sentid ` set g))"
  by (simp add: nunique_def filter_all length_remdups_card_conv)

lemma sum_skipna_sum_list:
  "sum_skipna xs = sum_list (map (\<lambda>x. case x of None \<Rightarrow> 0 | Some v \<Rightarrow> v) xs)"
  by (induction xs rule: sum_skipna.induct) simp_all

lemma dd_of_row:
  assumes "dd_frame d = Inr m" and "r \<in> set m"
  shows "dd r = map_option (\<lambda>h. \<bar>h - new_id r\<bar>) (new_head r)"
proof -
  from in_dd_frame[OF assms] obtain x where "r = add_dd x" by blast
  then show ?thesis by (simp add: add_dd_sel)
qed

lemma sum_dd_explicit:
  assumes "dd_frame d = Inr m"
  shows "sum_skipna (map dd (filter P m)) =
         (\<Sum>r\<leftarrow>filter P m. case new_head r of None \<Rightarrow> 0 | Some h \<Rightarrow> \<bar>h - new_id r\<bar>)"
proof -
  have "map (\<lambda>r. case dd r of None \<Rightarrow> 0 | Some v \<Rightarrow> v) (filter P m) =
        map (\<lambda>r. case new_head r of None \<Rightarrow> 0 | Some h \<Rightarrow> \<bar>h - new_id r\<bar>) (filter P m)"
  proof (rule map_cong[OF refl])
    fix r assume "r \<in> set (filter P m)"
    then have "r \<in> set m" by simp
    from dd_of_row[OF assms this]
    show "(case dd r of None \<Rightarrow> 0 | Some v \<Rightarrow> v) =
          (case new_head r of None \<Rightarrow> 0 | Some h \<Rightarrow> \<bar>h - new_id r\<bar>)"
      by (cases "new_head r") simp_all
  qed
  then show ?thesis
    by (simp only: sum_skipna_sum_list map_map comp_def)
qed

lemma in_map2_add_new_id_ex:
  "length ns = length e \<Longrightarrow> t \<in> set e \<Longrightarrow> \<exists>n. add_new_id t n \<in> set (map2 add_new_id e ns)"
  by (induction e ns rule: list_induct2') auto

lemma dd_frame_keys:
  assumes "dd_frame d = Inr m"
  shows "key ` set m = key ` set (drop_punct d)"
proof
  show "key ` set m \<subseteq> key ` set (drop_punct d)"
  proof
    fix k assume "k \<in> key ` set m"
    then obtain x where x: "x \<in> set m" "k = key x" by auto
    from dd_frame_row[OF assms x(1)] obtain r0
      where "r0 \<in> set (drop_punct d)" "key x = key r0" by blast
    with x(2) show "k \<in> key ` set (drop_punct d)" by (auto simp: image_iff)
  qed
  show "key ` set (drop_punct d) \<subseteq> key ` set m"
  proof
    fix k assume "k \<in> key ` set (drop_punct d)"
    then obtain r0 where r0: "r0 \<in> set (drop_punct d)" "k = key r0" by auto
    let ?d1 = "map2 add_new_id (drop_punct d) (ids_of (map key (drop_punct d)))"
    from assms have m: "m = map add_dd (merge_left ?d1)"
      by (auto simp: dd_frame_eq split: if_splits)
    from in_map2_add_new_id_ex[OF length_ids_of[of "map key (drop_punct d)", simplified] r0(1)]
    obtain n where l: "add_new_id r0 n \<in> set ?d1" by blast
    from merge_row_nonempty[of ?d1 "add_new_id r0 n"]
    obtain x where x: "x \<in> set (merge_row ?d1 (add_new_id r0 n))"
      by (cases "merge_row ?d1 (add_new_id r0 n)") auto
    with l have "x \<in> set (merge_left ?d1)"
      unfolding merge_left_def set_concat set_map by blast
    then have "add_dd x \<in> set m" by (simp add: m)
    moreover have "key (add_dd x) = k"
      using merge_row_key[OF x] r0(2) by (simp add: key_add)
    ultimately show "k \<in> key ` set m" by (auto simp: image_iff)
  qed
qed

lemma sort_remdups_set: "set xs = set ys \<Longrightarrow> sort (remdups xs) = sort (remdups ys)"
  by (simp add: sorted_list_of_set_sort_remdups[symmetric])

lemma calc_mdd_rows:
  assumes "dd_frame d = Inr m"
  shows "calc_mdd d True = Inr (BySentence (agg_by_sentence m))"
    and "calc_mdd d False = Inr (ByDocument (agg_by_document m))"
  by (simp_all add: calc_mdd_def assms)

lemma agg_keys_sentence:
  assumes "dd_frame d = Inr m"
  shows "map (\<lambda>a. (s_docid a, s_sentid a)) (agg_by_sentence m) =
         sort (remdups (map key (drop_punct d)))"
proof -
  have f: "filter notnull_key m = m"
    by (rule filter_all) (use dd_frame_notnull[OF assms] in blast)
  have "map (\<lambda>a. (s_docid a, s_sentid a)) (agg_by_sentence m) = sort (remdups (map key m))"
    by (simp add: agg_by_sentence_def f comp_def sent_row_key)
  also have "\<dots> = sort (remdups (map key (drop_punct d)))"
    by (rule sort_remdups_set) (simp add: dd_frame_keys[OF assms])
  finally show ?thesis .
qed

lemma agg_keys_document:
  assumes "dd_frame d = Inr m"
  shows "map d_docid (agg_by_document m) = sort (remdups (map docid (drop_punct d)))"
proof -
  have f: "filter (\<lambda>r. notnull (docid r)) m = m"
    by (rule filter_all) (use dd_frame_notnull[OF assms] in \<open>auto simp: notnull_key_def\<close>)
  have "map d_docid (agg_by_document m) = sort (remdups (map docid m))"
    by (simp add: agg_by_document_def f comp_def doc_row_key)
  also have "\<dots> = sort (remdups (map docid (drop_punct d)))"
  proof (rule sort_remdups_set)
    have "docid ` set m = fst ` key ` set m" by (auto simp: key_def image_iff)
    also have "\<dots> = fst ` key ` set (drop_punct d)" by (simp only: dd_frame_keys[OF assms])
    also have "\<dots> = docid ` set (drop_punct d)" by (auto simp: key_def image_iff)
    finally show "set (map docid m) = set (map docid (drop_punct d))" by simp
  qed
  finally show ?thesis .
qed

lemma sentids_of_document:
  assumes "dd_frame d = Inr m"
  shows "sentid ` set (filter (\<lambda>r. docid r = c) m) =
         sentid ` set (filter (\<lambda>r. docid r = c) (drop_punct d))"
proof -
  have e: "sentid ` set (filter (\<lambda>r. docid r = c) xs) = {s. (c, s) \<in> key ` set xs}"
    for xs :: "'a row_scheme list"
    by (auto simp: key_def image_iff)
  show ?thesis by (simp only: e dd_frame_keys[OF assms])
qed

lemma fdiv_nonneg:
  "0 \<le> a \<Longrightarrow> fdiv a b =
     (if b = 0 then (if a = 0 then NaN else PosInf)
      else Finite (real_of_int a / real_of_int b))"
  by (simp add: fdiv_def)

lemma sent_row_explicit:
  assumes "dd_frame d = Inr m"
  shows "s_sum_dd (sent_row m k) =
           (\<Sum>r\<leftarrow>filter (\<lambda>r. key r = k) m.
              case new_head r of None \<Rightarrow> 0 | Some h \<Rightarrow> \<bar>h - new_id r\<bar>)"
    and "s_n_tokens (sent_row m k) =
           int (length (filter (\<lambda>r. token r \<noteq> None) (filter (\<lambda>r. key r = k) m)))"
    and "s_mdd (sent_row m k) =
           (if s_n_tokens (sent_row m k) - 1 = 0
            then (if s_sum_dd (sent_row m k) = 0 then NaN else PosInf)
            else Finite (real_of_int (s_sum_dd (sent_row m k)) /
                         real_of_int (s_n_tokens (sent_row m k) - 1)))"
proof -
  have s: "s_sum_dd (sent_row m k) = sum_skipna (map dd (filter (\<lambda>r. key r = k) m))"
    by (simp add: sent_row_def Let_def)
  show "s_sum_dd (sent_row m k) =
           (\<Sum>r\<leftarrow>filter (\<lambda>r. key r = k) m.
              case new_head r of None \<Rightarrow> 0 | Some h \<Rightarrow> \<bar>h - new_id r\<bar>)"
    by (simp only: s sum_dd_explicit[OF assms])
  show "s_n_tokens (sent_row m k) =
           int (length (filter (\<lambda>r. token r \<noteq> None) (filter (\<lambda>r. key r = k) m)))"
    by (simp add: sent_row_def Let_def count_notnull_length)
  have nn: "0 \<le> s_sum_dd (sent_row m k)"
    unfolding s by (rule sum_dd_nonneg[OF assms])
  have "s_mdd (sent_row m k) = fdiv (s_sum_dd (sent_row m k)) (s_n_tokens (sent_row m k) - 1)"
    by (simp add: sent_row_def Let_def)
  then show "s_mdd (sent_row m k) =
           (if s_n_tokens (sent_row m k) - 1 = 0
            then (if s_sum_dd (sent_row m k) = 0 then NaN else PosInf)
            else Finite (real_of_int (s_sum_dd (sent_row m k)) /
                         real_of_int (s_n_tokens (sent_row m k) - 1)))"
    by (simp only: fdiv_nonneg[OF nn])
qed

lemma doc_row_explicit:
  assumes "dd_frame d = Inr m"
  shows "d_sum_dd (doc_row m c) =
           (\<Sum>r\<leftarrow>filter (\<lambda>r. docid r = c) m.
              case new_head r of None \<Rightarrow> 0 | Some h \<Rightarrow> \<bar>h - new_id r\<bar>)"
    and "d_n_tokens (doc_row m c) =
           int (length (filter (\<lambda>r. token r \<noteq> None) (filter (\<lambda>r. docid r = c) m)))"
    and "d_n_sents (doc_row m c) =
           int (card (sentid ` set (filter (\<lambda>r. docid r = c) (drop_punct d))))"
    and "d_mdd (doc_row m c) =
           (if d_n_tokens (doc_row m c) - d_n_sents (doc_row m c) = 0
            then (if d_sum_dd (doc_row m c) = 0 then NaN else PosInf)
            else Finite (real_of_int (d_sum_dd (doc_row m c)) /
                         real_of_int (d_n_tokens (doc_row m c) - d_n_sents (doc_row m c))))"
proof -
  have s: "d_sum_dd (doc_row m c) = sum_skipna (map dd (filter (\<lambda>r. docid r = c) m))"
    by (simp add: doc_row_def Let_def)
  show "d_sum_dd (doc_row m c) =
           (\<Sum>r\<leftarrow>filter (\<lambda>r. docid r = c) m.
              case new_head r of None \<Rightarrow> 0 | Some h \<Rightarrow> \<bar>h - new_id r\<bar>)"
    by (simp only: s sum_dd_explicit[OF assms])
  show "d_n_tokens (doc_row m c) =
           int (length (filter (\<lambda>r. token r \<noteq> None) (filter (\<lambda>r. docid r = c) m)))"
    by (simp add: doc_row_def Let_def count_notnull_length)
  have u: "nunique (map sentid (filter (\<lambda>r. docid r = c) m)) =
        int (card (sentid ` set (filter (\<lambda>r. docid r = c) m)))"
    by (rule nunique_card) (use dd_frame_notnull[OF assms] in \<open>auto simp: notnull_key_def\<close>)
  have "d_n_sents (doc_row m c) = nunique (map sentid (filter (\<lambda>r. docid r = c) m))"
    by (simp add: doc_row_def Let_def)
  then show "d_n_sents (doc_row m c) =
           int (card (sentid ` set (filter (\<lambda>r. docid r = c) (drop_punct d))))"
    by (simp only: u sentids_of_document[OF assms])
  have nn: "0 \<le> d_sum_dd (doc_row m c)"
    unfolding s by (rule sum_dd_nonneg[OF assms])
  have "d_mdd (doc_row m c) =
        fdiv (d_sum_dd (doc_row m c)) (d_n_tokens (doc_row m c) - d_n_sents (doc_row m c))"
    by (simp add: doc_row_def Let_def)
  then show "d_mdd (doc_row m c) =
           (if d_n_tokens (doc_row m c) - d_n_sents (doc_row m c) = 0
            then (if d_sum_dd (doc_row m c) = 0 then NaN else PosInf)
            else Finite (real_of_int (d_sum_dd (doc_row m c)) /
                         real_of_int (d_n_tokens (doc_row m c) - d_n_sents (doc_row m c))))"
    by (simp only: fdiv_nonneg[OF nn])
qed

lemma in_agg_sentence_eq:
  "a \<in> set (agg_by_sentence m) \<Longrightarrow> a = sent_row m (s_docid a, s_sentid a)"
  using in_agg_by_sentence by blast

lemma in_agg_document_eq:
  "a \<in> set (agg_by_document m) \<Longrightarrow> a = doc_row m (d_docid a)"
  using in_agg_by_document by blast

text \<open>
  Claim C2, amended.  Whenever \<^verbatim>\<open>calc_mdd\<close> returns, it returns by sentence one row for
  every (document, sentence) pair of the kept tokens, and by document one row for every
  document of the kept tokens.  Let \<open>m\<close> be the frame that \<^verbatim>\<open>calc_mdd\<close> aggregates, the
  kept tokens joined with their heads.  In the row of a group, \<open>sum_dd\<close> is the sum of
  \<open>\<bar>new_head - new_id\<bar>\<close> over the rows of the group in \<open>m\<close> whose head was found;
  \<open>n_tokens\<close> is the number of rows of the group in \<open>m\<close> whose \<^verbatim>\<open>token\<close> cell is not null;
  \<open>n_sents\<close> is the number of distinct \<^verbatim>\<open>sentid\<close> among the kept tokens of the document;
  and \<open>mdd\<close> is the quotient \<open>sum_dd / (n_tokens - 1)\<close> by sentence and
  \<open>sum_dd / (n_tokens - n_sents)\<close> by document, which is the float \<^verbatim>\<open>NaN\<close> or \<^verbatim>\<open>inf\<close>
  when the divisor is 0.  When no two kept tokens of a sentence have the same \<^verbatim>\<open>id\<close> and
  no kept token has a null \<^verbatim>\<open>token\<close> cell, the rows of \<open>m\<close> are the kept tokens one for
  one, and \<open>n_tokens\<close> is the number of kept tokens of the group.
\<close>

theorem mdd_formula:
  assumes "dd_frame d = Inr m"
  shows "\<exists>rs rd.
     calc_mdd d True = Inr (BySentence rs) \<and> calc_mdd d False = Inr (ByDocument rd) \<and>
     map (\<lambda>a. (s_docid a, s_sentid a)) rs = sort (remdups (map key (drop_punct d))) \<and>
     map d_docid rd = sort (remdups (map docid (drop_punct d))) \<and>
     (\<forall>a\<in>set rs.
        s_sum_dd a =
          (\<Sum>r\<leftarrow>filter (\<lambda>r. key r = (s_docid a, s_sentid a)) m.
             case new_head r of None \<Rightarrow> 0 | Some h \<Rightarrow> \<bar>h - new_id r\<bar>) \<and>
        s_n_tokens a =
          int (length (filter (\<lambda>r. token r \<noteq> None)
                 (filter (\<lambda>r. key r = (s_docid a, s_sentid a)) m))) \<and>
        s_mdd a =
          (if s_n_tokens a - 1 = 0 then (if s_sum_dd a = 0 then NaN else PosInf)
           else Finite (real_of_int (s_sum_dd a) / real_of_int (s_n_tokens a - 1)))) \<and>
     (\<forall>a\<in>set rd.
        d_sum_dd a =
          (\<Sum>r\<leftarrow>filter (\<lambda>r. docid r = d_docid a) m.
             case new_head r of None \<Rightarrow> 0 | Some h \<Rightarrow> \<bar>h - new_id r\<bar>) \<and>
        d_n_tokens a =
          int (length (filter (\<lambda>r. token r \<noteq> None)
                 (filter (\<lambda>r. docid r = d_docid a) m))) \<and>
        d_n_sents a =
          int (card (sentid ` set (filter (\<lambda>r. docid r = d_docid a) (drop_punct d)))) \<and>
        d_mdd a =
          (if d_n_tokens a - d_n_sents a = 0 then (if d_sum_dd a = 0 then NaN else PosInf)
           else Finite (real_of_int (d_sum_dd a) /
                        real_of_int (d_n_tokens a - d_n_sents a)))) \<and>
     (distinct (map (\<lambda>r. (key r, id_col r)) (drop_punct d)) \<and>
      (\<forall>r\<in>set (drop_punct d). token r \<noteq> None) \<longrightarrow>
        map row.truncate m = drop_punct d \<and>
        (\<forall>a\<in>set rs.
           s_n_tokens a =
             int (length (filter (\<lambda>r. key r = (s_docid a, s_sentid a)) (drop_punct d)))) \<and>
        (\<forall>a\<in>set rd.
           d_n_tokens a =
             int (length (filter (\<lambda>r. docid r = d_docid a) (drop_punct d)))))"
proof (intro exI conjI)
  show "calc_mdd d True = Inr (BySentence (agg_by_sentence m))"
    by (rule calc_mdd_rows[OF assms])
  show "calc_mdd d False = Inr (ByDocument (agg_by_document m))"
    by (rule calc_mdd_rows[OF assms])
  show "map (\<lambda>a. (s_docid a, s_sentid a)) (agg_by_sentence m) =
        sort (remdups (map key (drop_punct d)))"
    by (rule agg_keys_sentence[OF assms])
  show "map d_docid (agg_by_document m) = sort (remdups (map docid (drop_punct d)))"
    by (rule agg_keys_document[OF assms])
  show "\<forall>a\<in>set (agg_by_sentence m).
        s_sum_dd a =
          (\<Sum>r\<leftarrow>filter (\<lambda>r. key r = (s_docid a, s_sentid a)) m.
             case new_head r of None \<Rightarrow> 0 | Some h \<Rightarrow> \<bar>h - new_id r\<bar>) \<and>
        s_n_tokens a =
          int (length (filter (\<lambda>r. token r \<noteq> None)
                 (filter (\<lambda>r. key r = (s_docid a, s_sentid a)) m))) \<and>
        s_mdd a =
          (if s_n_tokens a - 1 = 0 then (if s_sum_dd a = 0 then NaN else PosInf)
           else Finite (real_of_int (s_sum_dd a) / real_of_int (s_n_tokens a - 1)))"
  proof
    fix a assume "a \<in> set (agg_by_sentence m)"
    then have a: "a = sent_row m (s_docid a, s_sentid a)" by (rule in_agg_sentence_eq)
    show "s_sum_dd a =
          (\<Sum>r\<leftarrow>filter (\<lambda>r. key r = (s_docid a, s_sentid a)) m.
             case new_head r of None \<Rightarrow> 0 | Some h \<Rightarrow> \<bar>h - new_id r\<bar>) \<and>
        s_n_tokens a =
          int (length (filter (\<lambda>r. token r \<noteq> None)
                 (filter (\<lambda>r. key r = (s_docid a, s_sentid a)) m))) \<and>
        s_mdd a =
          (if s_n_tokens a - 1 = 0 then (if s_sum_dd a = 0 then NaN else PosInf)
           else Finite (real_of_int (s_sum_dd a) / real_of_int (s_n_tokens a - 1)))"
      using sent_row_explicit[OF assms, of "(s_docid a, s_sentid a)"]
      unfolding a[symmetric] by blast
  qed
  show "\<forall>a\<in>set (agg_by_document m).
        d_sum_dd a =
          (\<Sum>r\<leftarrow>filter (\<lambda>r. docid r = d_docid a) m.
             case new_head r of None \<Rightarrow> 0 | Some h \<Rightarrow> \<bar>h - new_id r\<bar>) \<and>
        d_n_tokens a =
          int (length (filter (\<lambda>r. token r \<noteq> None)
                 (filter (\<lambda>r. docid r = d_docid a) m))) \<and>
        d_n_sents a =
          int (card (sentid ` set (filter (\<lambda>r. docid r = d_docid a) (drop_punct d)))) \<and>
        d_mdd a =
          (if d_n_tokens a - d_n_sents a = 0 then (if d_sum_dd a = 0 then NaN else PosInf)
           else Finite (real_of_int (d_sum_dd a) /
                        real_of_int (d_n_tokens a - d_n_sents a)))"
  proof
    fix a assume "a \<in> set (agg_by_document m)"
    then have a: "a = doc_row m (d_docid a)" by (rule in_agg_document_eq)
    show "d_sum_dd a =
          (\<Sum>r\<leftarrow>filter (\<lambda>r. docid r = d_docid a) m.
             case new_head r of None \<Rightarrow> 0 | Some h \<Rightarrow> \<bar>h - new_id r\<bar>) \<and>
        d_n_tokens a =
          int (length (filter (\<lambda>r. token r \<noteq> None)
                 (filter (\<lambda>r. docid r = d_docid a) m))) \<and>
        d_n_sents a =
          int (card (sentid ` set (filter (\<lambda>r. docid r = d_docid a) (drop_punct d)))) \<and>
        d_mdd a =
          (if d_n_tokens a - d_n_sents a = 0 then (if d_sum_dd a = 0 then NaN else PosInf)
           else Finite (real_of_int (d_sum_dd a) /
                        real_of_int (d_n_tokens a - d_n_sents a)))"
      using doc_row_explicit[OF assms, of "d_docid a"]
      unfolding a[symmetric] by blast
  qed
  show "distinct (map (\<lambda>r. (key r, id_col r)) (drop_punct d)) \<and>
      (\<forall>r\<in>set (drop_punct d). token r \<noteq> None) \<longrightarrow>
        map row.truncate m = drop_punct d \<and>
        (\<forall>a\<in>set (agg_by_sentence m).
           s_n_tokens a =
             int (length (filter (\<lambda>r. key r = (s_docid a, s_sentid a)) (drop_punct d)))) \<and>
        (\<forall>a\<in>set (agg_by_document m).
           d_n_tokens a =
             int (length (filter (\<lambda>r. docid r = d_docid a) (drop_punct d))))"
  proof (intro impI conjI ballI)
    assume h: "distinct (map (\<lambda>r. (key r, id_col r)) (drop_punct d)) \<and>
               (\<forall>r\<in>set (drop_punct d). token r \<noteq> None)"
    then have dist: "distinct (map (\<lambda>r. (key r, id_col r)) (drop_punct d))"
      and tk: "\<forall>r\<in>set (drop_punct d). token r \<noteq> None" by simp_all
    show "map row.truncate m = drop_punct d"
      by (rule dd_frame_truncate[OF dist assms])
    {
      fix a assume "a \<in> set (agg_by_sentence m)"
      then have a: "a = sent_row m (s_docid a, s_sentid a)" by (rule in_agg_sentence_eq)
      have "s_n_tokens (sent_row m (s_docid a, s_sentid a)) =
            int (length (filter (\<lambda>r. key r = (s_docid a, s_sentid a)) (drop_punct d)))"
        by (simp only: n_tokens_sentence[OF dist assms] count_all_tokens[OF tk])
      then show "s_n_tokens a =
            int (length (filter (\<lambda>r. key r = (s_docid a, s_sentid a)) (drop_punct d)))"
        unfolding a[symmetric] .
    }
    {
      fix a assume "a \<in> set (agg_by_document m)"
      then have a: "a = doc_row m (d_docid a)" by (rule in_agg_document_eq)
      have "d_n_tokens (doc_row m (d_docid a)) =
            int (length (filter (\<lambda>r. docid r = d_docid a) (drop_punct d)))"
        by (simp only: n_tokens_document[OF dist assms] count_all_tokens[OF tk])
      then show "d_n_tokens a =
            int (length (filter (\<lambda>r. docid r = d_docid a) (drop_punct d)))"
        unfolding a[symmetric] .
    }
  qed
qed

subsection \<open>Tokens whose head is not found\<close>

lemma sum_skipna_filter:
  "\<forall>r\<in>set g. \<not> P r \<longrightarrow> dd r = None \<Longrightarrow>
   sum_skipna (map dd (filter P g)) = sum_skipna (map dd g)"
proof (induction g)
  case Nil
  show ?case by simp
next
  case (Cons r g)
  then show ?case by (cases "dd r") auto
qed

text \<open>
  Claim C3, amended.  The columns \<^verbatim>\<open>id\<close> and \<^verbatim>\<open>head\<close> hold text and the lookup compares
  them as such, so the head \<^verbatim>\<open>'0'\<close> of a root is looked up like any other head.  When no
  kept token has the index \<^verbatim>\<open>'0'\<close>, the lookup finds nothing for a root: its \<^verbatim>\<open>new_head\<close>
  and its \<^verbatim>\<open>dd\<close> are missing (\<^verbatim>\<open>NaN\<close>), not \<open>0\<close>.  The sum skips missing values, so the
  root adds nothing to \<open>sum_dd\<close>: the \<open>sum_dd\<close> of a sentence is the sum over its tokens
  that are not roots.
\<close>

theorem root_unmatched:
  assumes "dd_frame d = Inr m" and "\<forall>r\<in>set (drop_punct d). id_col r \<noteq> Some ''0''"
  shows "(\<forall>r\<in>set m. head r = Some ''0'' \<longrightarrow> new_head r = None \<and> dd r = None) \<and>
         (\<forall>k. s_sum_dd (sent_row m k) =
              sum_skipna (map dd (filter (\<lambda>r. key r = k \<and> head r \<noteq> Some ''0'') m)))"
proof -
  have root: "new_head r = None \<and> dd r = None" if r: "r \<in> set m" "head r = Some ''0''" for r
  proof -
    from in_dd_frame[OF assms(1) r(1)] obtain d1 l x where
      d1: "set_new_id (drop_punct d) = Inr d1" and l: "l \<in> set d1"
      and x: "x \<in> set (merge_row d1 l)" and rx: "r = add_dd x" by blast
    from in_merge_row[OF x] have hx: "head x = head l" and
      nh: "new_head x = None \<or> (\<exists>r'\<in>set d1. id_col r' = head l)" by auto
    from r(2) rx hx have hl: "head l = Some ''0''" by (simp add: add_dd_sel)
    have "\<not> (\<exists>r'\<in>set d1. id_col r' = head l)"
    proof
      assume "\<exists>r'\<in>set d1. id_col r' = head l"
      then obtain r' where r': "r' \<in> set d1" "id_col r' = Some ''0''" using hl by auto
      from set_new_id_rows[OF d1 r'(1)] obtain r0 n where
        "r0 \<in> set (drop_punct d)" "r' = add_new_id r0 n" by blast
      with r'(2) assms(2) show False by (auto simp: add_new_id_sel)
    qed
    with nh have "new_head x = None" by blast
    with rx show ?thesis by (simp add: add_dd_sel)
  qed
  have "s_sum_dd (sent_row m k) =
        sum_skipna (map dd (filter (\<lambda>r. key r = k \<and> head r \<noteq> Some ''0'') m))" for k
  proof -
    let ?g = "filter (\<lambda>r. key r = k) m"
    have "sum_skipna (map dd (filter (\<lambda>r. head r \<noteq> Some ''0'') ?g)) = sum_skipna (map dd ?g)"
      by (rule sum_skipna_filter) (use root in auto)
    then show ?thesis
      by (simp add: sent_row_def Let_def conj_commute)
  qed
  with root show ?thesis by blast
qed







subsection \<open>A zero divisor\<close>

text \<open>
  Claim C6, amended.  \<^verbatim>\<open>calc_mdd\<close> has no check of the divisor.  Whenever the divisor of
  a group is zero (\<open>n_tokens = 1\<close> by sentence, \<open>n_tokens = n_sents\<close> by document),
  \<^verbatim>\<open>calc_mdd\<close> returns as usual and the \<open>mdd\<close> of the group is the float \<^verbatim>\<open>NaN\<close> when
  \<open>sum_dd\<close> is \<open>0\<close> and the float \<^verbatim>\<open>inf\<close> otherwise; nothing else marks the row.
\<close>

theorem zero_divisor:
  assumes "dd_frame d = Inr m"
  shows "calc_mdd d True = Inr (BySentence (agg_by_sentence m)) \<and>
         calc_mdd d False = Inr (ByDocument (agg_by_document m)) \<and>
         (\<forall>a\<in>set (agg_by_sentence m). s_n_tokens a - 1 = 0 \<longrightarrow>
            s_mdd a = (if s_sum_dd a = 0 then NaN else PosInf)) \<and>
         (\<forall>a\<in>set (agg_by_document m). d_n_tokens a - d_n_sents a = 0 \<longrightarrow>
            d_mdd a = (if d_sum_dd a = 0 then NaN else PosInf))"
proof -
  have 1: "calc_mdd d True = Inr (BySentence (agg_by_sentence m))"
    and 2: "calc_mdd d False = Inr (ByDocument (agg_by_document m))"
    by (simp_all add: calc_mdd_def assms)
  have 3: "s_mdd a = (if s_sum_dd a = 0 then NaN else PosInf)"
    if a: "a \<in> set (agg_by_sentence m)" "s_n_tokens a - 1 = 0" for a
  proof -
    from a(1) obtain k where k: "a = sent_row m k" by (auto simp: agg_by_sentence_def)
    have "0 \<le> s_sum_dd a"
      unfolding k using sum_dd_nonneg[OF assms, of "\<lambda>r. key r = k"]
      by (simp add: sent_row_def Let_def)
    moreover have "s_mdd a = fdiv (s_sum_dd a) (s_n_tokens a - 1)"
      unfolding k by (simp add: sent_row_def Let_def)
    ultimately show ?thesis using a(2) by (simp add: fdiv_def)
  qed
  have 4: "d_mdd a = (if d_sum_dd a = 0 then NaN else PosInf)"
    if a: "a \<in> set (agg_by_document m)" "d_n_tokens a - d_n_sents a = 0" for a
  proof -
    from a(1) obtain k where k: "a = doc_row m k" by (auto simp: agg_by_document_def)
    have "0 \<le> d_sum_dd a"
      unfolding k using sum_dd_nonneg[OF assms, of "\<lambda>r. docid r = k"]
      by (simp add: doc_row_def Let_def)
    moreover have "d_mdd a = fdiv (d_sum_dd a) (d_n_tokens a - d_n_sents a)"
      unfolding k by (simp add: doc_row_def Let_def)
    ultimately show ?thesis using a(2) by (simp add: fdiv_def)
  qed
  from 1 2 3 4 show ?thesis by blast
qed

subsection \<open>Field counts\<close>

lemma startswith_hash:
  assumes "startswith l p" and "take 1 p = ''#''"
  shows "startswith l ''#''"
proof -
  from assms(1) have "take (length p) l = p" by (simp add: startswith_def)
  then have "take 1 p = take 1 (take (length p) l)" by simp
  also have "\<dots> = take (min 1 (length p)) l" by (simp only: take_take)
  finally have "take (min 1 (length p)) l = ''#''" using assms(2) by simp
  moreover from assms(2) have "1 \<le> length p" by (cases p) auto
  ultimately show ?thesis by (simp add: startswith_def min_def)
qed

lemma parse_line_data:
  assumes "parse_line st raw = Inr st'"
  shows "map (\<lambda>t. snd (snd t)) (data st') =
         map (\<lambda>t. snd (snd t)) (data st) @
         (if is_data_line (strip raw) then [split_char (CHR 0x09) (strip raw)] else [])"
proof -
  let ?l = "strip raw"
  have h1: "startswith ?l ''# newdoc id ='' \<Longrightarrow> startswith ?l ''#''"
    by (erule startswith_hash) simp
  have h2: "?l = ''# newdoc'' \<Longrightarrow> startswith ?l ''#''"
    by (simp add: startswith_def)
  have h3: "startswith ?l ''# sent_id ='' \<Longrightarrow> startswith ?l ''#''"
    by (erule startswith_hash) simp
  show ?thesis
  proof (cases "startswith ?l ''#''")
    case True
    with assms show ?thesis
      unfolding parse_line_def Let_def is_data_line_def
      by (auto split: if_splits option.splits)
  next
    case False
    with h1 h2 h3 have n: "\<not> startswith ?l ''# newdoc id =''" "?l \<noteq> ''# newdoc''"
      "\<not> startswith ?l ''# sent_id =''" by blast+
    from assms show ?thesis
      unfolding parse_line_def Let_def is_data_line_def
      by (simp only: n False if_False) (auto split: if_splits)
  qed
qed

lemma parse_lines_data:
  "parse_lines st ls = Inr st' \<Longrightarrow>
   map (\<lambda>t. snd (snd t)) (data st') =
   map (\<lambda>t. snd (snd t)) (data st) @
   map (split_char (CHR 0x09)) (filter is_data_line (map strip ls))"
proof (induction ls arbitrary: st)
  case Nil
  then show ?case by simp
next
  case (Cons l ls)
  from Cons.prems obtain st1 where 1: "parse_line st l = Inr st1"
    and 2: "parse_lines st1 ls = Inr st'"
    by (auto split: sum.splits)
  show ?case
    using Cons.IH[OF 2] parse_line_data[OF 1] by simp
qed

lemma fold_max_shift:
  "fold max (map (\<lambda>x. 2 + f x) xs) (2 + a) = 2 + fold max (map f xs) (a::nat)"
  by (induction xs arbitrary: a) (simp_all add: max_add_distrib_left)

lemma fold_max_Max: "xs \<noteq> [] \<Longrightarrow> fold max xs (0::nat) = Max (set xs)"
proof (cases xs)
  case Nil
  assume "xs \<noteq> []"
  with Nil show ?thesis by simp
next
  case (Cons x ys)
  have "fold max xs 0 = fold max ys x" by (simp add: Cons)
  also have "\<dots> = Max (set (x # ys))" by (simp only: Max.set_eq_fold)
  finally show ?thesis by (simp add: Cons)
qed

lemma widths_data:
  assumes "parse_lines init_state (split_char (CHR 0x0A) conll) = Inr st"
  shows "map tuple_width (data st) = map (\<lambda>l. 2 + n_fields l) (data_lines conll)"
proof -
  have "map (\<lambda>t. snd (snd t)) (data st) = map (split_char (CHR 0x09)) (data_lines conll)"
    using parse_lines_data[OF assms] by (simp add: init_state_def data_lines_def)
  then have "map (\<lambda>n. 2 + length n) (map (\<lambda>t. snd (snd t)) (data st)) =
             map (\<lambda>n. 2 + length n) (map (split_char (CHR 0x09)) (data_lines conll))"
    by (simp only:)
  moreover have "tuple_width = (\<lambda>t. 2 + length (snd (snd t)))"
    by (auto simp: fun_eq_iff tuple_width_def)
  ultimately show ?thesis
    by (simp add: n_fields_def comp_def)
qed

lemma startswith_take:
  assumes "startswith l p" and "n \<le> length p"
  shows "take n l = take n p"
proof -
  from assms(1) have "take (length p) l = p" by (simp add: startswith_def)
  then have "take n p = take n (take (length p) l)" by simp
  also have "\<dots> = take (min n (length p)) l" by (simp only: take_take)
  finally show ?thesis using assms(2) by (simp add: min_def)
qed

lemma sent_id_not_newdoc:
  assumes "startswith l ''# sent_id =''"
  shows "\<not> startswith l ''# newdoc id =''" and "l \<noteq> ''# newdoc''"
proof -
  from startswith_take[OF assms, of 3] have t: "take 3 l = ''# s''" by simp
  show "\<not> startswith l ''# newdoc id =''"
  proof
    assume "startswith l ''# newdoc id =''"
    from startswith_take[OF this, of 3] have "take 3 l = ''# n''" by simp
    with t show False by simp
  qed
  show "l \<noteq> ''# newdoc''"
  proof
    assume "l = ''# newdoc''"
    then have "take 3 l = ''# n''" by simp
    with t show False by simp
  qed
qed

lemma parse_line_outcome:
  assumes "sentence_ids st \<noteq> []"
  shows "bad_comment (strip raw) \<Longrightarrow> parse_line st raw = Inl IndexError"
    and "\<not> bad_comment (strip raw) \<Longrightarrow>
         \<exists>st'. parse_line st raw = Inr st' \<and> sentence_ids st' \<noteq> []"
proof -
  let ?l = "strip raw"
  show "parse_line st raw = Inl IndexError" if "bad_comment ?l"
  proof (cases "startswith ?l ''# newdoc id =''")
    case True
    with that sent_id_not_newdoc(1)[of ?l]
    have "split1_snd ''# newdoc id = '' ?l = None"
      unfolding bad_comment_def by blast
    with True show ?thesis by (simp add: parse_line_def Let_def)
  next
    case False
    with that have s: "startswith ?l ''# sent_id =''"
      "split1_snd ''# sent_id = '' ?l = None"
      unfolding bad_comment_def by blast+
    from sent_id_not_newdoc(2)[OF s(1)] False s show ?thesis
      by (simp add: parse_line_def Let_def)
  qed
  show "\<exists>st'. parse_line st raw = Inr st' \<and> sentence_ids st' \<noteq> []" if "\<not> bad_comment ?l"
  proof (cases "startswith ?l ''# newdoc id =''")
    case True
    with that obtain rest where "split1_snd ''# newdoc id = '' ?l = Some rest"
      unfolding bad_comment_def by (cases "split1_snd ''# newdoc id = '' ?l") auto
    with True show ?thesis by (simp add: parse_line_def Let_def)
  next
    case n1: False
    show ?thesis
    proof (cases "?l = ''# newdoc''")
      case True
      with n1 show ?thesis by (simp add: parse_line_def Let_def)
    next
      case n2: False
      show ?thesis
      proof (cases "startswith ?l ''# sent_id =''")
        case True
        with that obtain rest where "split1_snd ''# sent_id = '' ?l = Some rest"
          unfolding bad_comment_def by (cases "split1_snd ''# sent_id = '' ?l") auto
        with True n1 n2 assms show ?thesis by (simp add: parse_line_def Let_def)
      next
        case n3: False
        from n1 n2 n3 assms show ?thesis
          by (simp add: parse_line_def Let_def)
      qed
    qed
  qed
qed

lemma parse_lines_outcome:
  "sentence_ids st \<noteq> [] \<Longrightarrow>
   (list_ex bad_comment (map strip ls) \<longrightarrow> parse_lines st ls = Inl IndexError) \<and>
   (\<not> list_ex bad_comment (map strip ls) \<longrightarrow> (\<exists>st'. parse_lines st ls = Inr st'))"
proof (induction ls arbitrary: st)
  case Nil
  show ?case by simp
next
  case (Cons l ls)
  show ?case
  proof (cases "bad_comment (strip l)")
    case True
    from parse_line_outcome(1)[OF Cons.prems True] True show ?thesis by simp
  next
    case False
    from parse_line_outcome(2)[OF Cons.prems False] obtain st1 where
      1: "parse_line st l = Inr st1" and 2: "sentence_ids st1 \<noteq> []" by blast
    from Cons.IH[OF 2] 1 False show ?thesis by simp
  qed
qed

lemma max_width:
  assumes "parse_lines init_state (split_char (CHR 0x0A) conll) = Inr st"
    and "data_lines conll \<noteq> []"
  shows "fold max (map tuple_width (data st)) 0 =
         2 + Max (set (map n_fields (data_lines conll)))"
proof -
  let ?ns = "map n_fields (data_lines conll)"
  have w: "map tuple_width (data st) = map (\<lambda>l. 2 + n_fields l) (data_lines conll)"
    by (rule widths_data[OF assms(1)])
  have "fold max (map tuple_width (data st)) 0 = fold max (map (\<lambda>x. 2 + x) ?ns) 0"
    by (simp add: w comp_def)
  also have "\<dots> = 2 + fold max ?ns 0"
  proof (cases ?ns)
    case Nil
    with assms(2) show ?thesis by simp
  next
    case (Cons n ns)
    have "fold max (map (\<lambda>x. 2 + x) (n # ns)) 0 = fold max (map (\<lambda>x. 2 + x) ns) (2 + n)"
      by simp
    also have "\<dots> = 2 + fold max ns n"
      using fold_max_shift[of "\<lambda>x. x" ns n] by simp
    also have "\<dots> = 2 + fold max (n # ns) 0" by simp
    finally show ?thesis by (simp only: Cons)
  qed
  also have "fold max ?ns 0 = Max (set ?ns)"
    by (rule fold_max_Max) (use assms(2) in simp)
  finally show ?thesis .
qed

lemma fields_of_to_row:
  "fields_of (to_row t) = map (nth_field (snd (snd t))) [0..<10]"
proof -
  have "[0..<10] = [0, 1, 2, 3, 4, 5, 6, 7, 8, 9::nat]" by code_simp
  then show ?thesis
    by (cases t) (simp add: fields_of_def to_row_def)
qed

lemma rows_fields:
  assumes "parse_lines init_state (split_char (CHR 0x0A) conll) = Inr st"
  shows "map fields_of (map to_row (data st)) =
         map (\<lambda>l. map (nth_field (split_char (CHR 0x09) l)) [0..<10]) (data_lines conll)"
proof -
  have d: "map (\<lambda>t. snd (snd t)) (data st) = map (split_char (CHR 0x09)) (data_lines conll)"
    using parse_lines_data[OF assms] by (simp add: init_state_def data_lines_def)
  have "map fields_of (map to_row (data st)) =
        map (\<lambda>fs. map (nth_field fs) [0..<10]) (map (\<lambda>t. snd (snd t)) (data st))"
    by (simp add: fields_of_to_row comp_def)
  also have "\<dots> = map (\<lambda>l. map (nth_field (split_char (CHR 0x09) l)) [0..<10]) (data_lines conll)"
    by (simp only: d map_map comp_def)
  finally show ?thesis .
qed

text \<open>
  Claim C7, amended.  \<^verbatim>\<open>parse_conll\<close> never counts the fields of a line; only the data
  frame constructor compares the width of the longest tuple with the number of columns.
  The fields of a data line are those of the stripped line.  For a text none of whose
  comment lines raises: when it has no data line, \<^verbatim>\<open>parse_conll\<close> returns the empty
  frame; when the largest number of fields of its data lines is not 10, in particular
  when one data line has more than 10 fields, \<^verbatim>\<open>parse_conll\<close> raises the \<^verbatim>\<open>ValueError\<close>
  of pandas, which carries neither a line number nor the line, and returns no rows; when
  the largest number of fields is 10, \<^verbatim>\<open>parse_conll\<close> returns one row for each data line,
  in order, with the fields of the line in its columns and \<^verbatim>\<open>None\<close> in the columns that a
  line of fewer than 10 fields does not reach.  A comment line that raises ends
  \<^verbatim>\<open>parse_conll\<close> with its \<^verbatim>\<open>IndexError\<close>, whatever the data lines are.
\<close>

theorem parse_conll_field_count:
  "(list_ex bad_comment (map strip (split_char (CHR 0x0A) conll)) \<longrightarrow>
      parse_conll conll = Inl IndexError) \<and>
   (\<not> list_ex bad_comment (map strip (split_char (CHR 0x0A) conll)) \<and>
    data_lines conll = [] \<longrightarrow>
      parse_conll conll = Inr []) \<and>
   (\<not> list_ex bad_comment (map strip (split_char (CHR 0x0A) conll)) \<and>
    data_lines conll \<noteq> [] \<and> Max (set (map n_fields (data_lines conll))) \<noteq> 10 \<longrightarrow>
      parse_conll conll = Inl ValueError) \<and>
   (\<not> list_ex bad_comment (map strip (split_char (CHR 0x0A) conll)) \<and>
    list_ex (\<lambda>l. 10 < n_fields l) (data_lines conll) \<longrightarrow>
      parse_conll conll = Inl ValueError) \<and>
   (\<not> list_ex bad_comment (map strip (split_char (CHR 0x0A) conll)) \<and>
    data_lines conll \<noteq> [] \<and> Max (set (map n_fields (data_lines conll))) = 10 \<longrightarrow>
      (\<exists>rows. parse_conll conll = Inr rows \<and>
         map fields_of rows =
           map (\<lambda>l. map (nth_field (split_char (CHR 0x09) l)) [0..<10]) (data_lines conll)))"
proof -
  let ?ls = "split_char (CHR 0x0A) conll"
  have i: "sentence_ids init_state \<noteq> []" by (simp add: init_state_def)
  have 1: "parse_conll conll = Inl IndexError" if "list_ex bad_comment (map strip ?ls)"
    using parse_lines_outcome[OF i, of ?ls] that by (simp add: parse_conll_def)
  have ok: "\<exists>st. parse_lines init_state ?ls = Inr st"
    if "\<not> list_ex bad_comment (map strip ?ls)"
    using parse_lines_outcome[OF i, of ?ls] that by blast
  have 2: "parse_conll conll = Inr []"
    if "\<not> list_ex bad_comment (map strip ?ls)" "data_lines conll = []"
  proof -
    from ok[OF that(1)] obtain st where st: "parse_lines init_state ?ls = Inr st" ..
    from widths_data[OF st] that(2) have "data st = []" by simp
    with st show ?thesis by (simp add: parse_conll_def DataFrame_def)
  qed
  have 3: "parse_conll conll = Inl ValueError"
    if "\<not> list_ex bad_comment (map strip ?ls)" "data_lines conll \<noteq> []"
      "Max (set (map n_fields (data_lines conll))) \<noteq> 10"
  proof -
    from ok[OF that(1)] obtain st where st: "parse_lines init_state ?ls = Inr st" ..
    from widths_data[OF st] that(2) have ne: "data st \<noteq> []" by auto
    from max_width[OF st that(2)] that(3)
    have "fold max (map tuple_width (data st)) 0 \<noteq> 12" by simp
    with st ne show ?thesis by (simp add: parse_conll_def DataFrame_def)
  qed
  have 4: "parse_conll conll = Inl ValueError"
    if "\<not> list_ex bad_comment (map strip ?ls)"
      "list_ex (\<lambda>l. 10 < n_fields l) (data_lines conll)"
  proof -
    from that(2) obtain l where l: "l \<in> set (data_lines conll)" "10 < n_fields l"
      by (auto simp: list_ex_iff)
    then have ne: "data_lines conll \<noteq> []" by auto
    from l(1) have "n_fields l \<le> Max (set (map n_fields (data_lines conll)))"
      by (intro Max_ge) auto
    with l(2) have "Max (set (map n_fields (data_lines conll))) \<noteq> 10" by simp
    from 3[OF that(1) ne this] show ?thesis .
  qed
  have 5: "\<exists>rows. parse_conll conll = Inr rows \<and>
         map fields_of rows =
           map (\<lambda>l. map (nth_field (split_char (CHR 0x09) l)) [0..<10]) (data_lines conll)"
    if "\<not> list_ex bad_comment (map strip ?ls)" "data_lines conll \<noteq> []"
      "Max (set (map n_fields (data_lines conll))) = 10"
  proof -
    from ok[OF that(1)] obtain st where st: "parse_lines init_state ?ls = Inr st" ..
    from widths_data[OF st] that(2) have ne: "data st \<noteq> []" by auto
    from max_width[OF st that(2)] that(3)
    have "fold max (map tuple_width (data st)) 0 = 12" by simp
    with st ne have "parse_conll conll = Inr (map to_row (data st))"
      by (simp add: parse_conll_def DataFrame_def)
    with rows_fields[OF st] show ?thesis by blast
  qed
  from 1 2 3 4 5 show ?thesis by blast
qed

lemma kept_filter:
  "filter (\<lambda>r. token r \<noteq> None) (filter P (drop_punct d)) =
   filter (\<lambda>r. \<not> is_punct r \<and> P r \<and> token r \<noteq> None) d"
  unfolding drop_punct_def filter_filter by (rule filter_cong[OF refl]) blast

text \<open>
  Claim C10, amended.  When no two kept tokens of a sentence have the same text in
  \<^verbatim>\<open>id\<close>, the lookup finds at most one row for a head, so the left join gives exactly one
  row for each kept token: the aggregated frame is the frame of the kept tokens with three
  more columns.  Then, in the rows that \<^verbatim>\<open>calc_mdd\<close> returns, one for every group of the
  kept tokens, \<open>n_tokens\<close> is the number of non-punctuation rows of the input in the group
  whose \<^verbatim>\<open>token\<close> cell is not null.  With a repeated \<^verbatim>\<open>id\<close> this fails: in \<open>dup_rows\<close>
  two kept tokens give three rows, and \<open>n_tokens\<close> is 3.
\<close>

theorem merge_one_row_per_token:
  "(distinct (map (\<lambda>r. (key r, id_col r)) (drop_punct d)) \<and> dd_frame d = Inr m \<longrightarrow>
      map row.truncate m = drop_punct d \<and>
      (\<exists>rs rd.
         calc_mdd d True = Inr (BySentence rs) \<and> calc_mdd d False = Inr (ByDocument rd) \<and>
         map (\<lambda>a. (s_docid a, s_sentid a)) rs = sort (remdups (map key (drop_punct d))) \<and>
         map d_docid rd = sort (remdups (map docid (drop_punct d))) \<and>
         (\<forall>a\<in>set rs.
            s_n_tokens a =
              int (length (filter (\<lambda>r. \<not> is_punct r \<and> key r = (s_docid a, s_sentid a) \<and>
                                       token r \<noteq> None) d))) \<and>
         (\<forall>a\<in>set rd.
            d_n_tokens a =
              int (length (filter (\<lambda>r. \<not> is_punct r \<and> docid r = d_docid a \<and>
                                       token r \<noteq> None) d))))) \<and>
   (\<not> distinct (map (\<lambda>r. (key r, id_col r)) (drop_punct dup_rows)) \<and>
    length (drop_punct dup_rows) = 2 \<and>
    calc_mdd dup_rows True =
      Inr (BySentence
        [\<lparr>s_docid = CStr ''A'', s_sentid = CStr ''1'', s_sum_dd = 1, s_n_tokens = 3,
          s_mdd = Finite (1 / 2)\<rparr>]))"
proof (intro conjI impI)
  assume a: "distinct (map (\<lambda>r. (key r, id_col r)) (drop_punct d)) \<and> dd_frame d = Inr m"
  then have dist: "distinct (map (\<lambda>r. (key r, id_col r)) (drop_punct d))"
    and m: "dd_frame d = Inr m" by simp_all
  show "map row.truncate m = drop_punct d"
    by (rule dd_frame_truncate[OF dist m])
  have s: "\<forall>a\<in>set (agg_by_sentence m).
            s_n_tokens a =
              int (length (filter (\<lambda>r. \<not> is_punct r \<and> key r = (s_docid a, s_sentid a) \<and>
                                       token r \<noteq> None) d))"
  proof
    fix a assume "a \<in> set (agg_by_sentence m)"
    then have a: "a = sent_row m (s_docid a, s_sentid a)" by (rule in_agg_sentence_eq)
    have "s_n_tokens (sent_row m (s_docid a, s_sentid a)) =
          int (length (filter (\<lambda>r. \<not> is_punct r \<and> key r = (s_docid a, s_sentid a) \<and>
                                   token r \<noteq> None) d))"
      by (simp only: n_tokens_sentence[OF dist m] count_notnull_length kept_filter)
    then show "s_n_tokens a =
          int (length (filter (\<lambda>r. \<not> is_punct r \<and> key r = (s_docid a, s_sentid a) \<and>
                                   token r \<noteq> None) d))"
      unfolding a[symmetric] .
  qed
  have c: "\<forall>a\<in>set (agg_by_document m).
            d_n_tokens a =
              int (length (filter (\<lambda>r. \<not> is_punct r \<and> docid r = d_docid a \<and>
                                       token r \<noteq> None) d))"
  proof
    fix a assume "a \<in> set (agg_by_document m)"
    then have a: "a = doc_row m (d_docid a)" by (rule in_agg_document_eq)
    have "d_n_tokens (doc_row m (d_docid a)) =
          int (length (filter (\<lambda>r. \<not> is_punct r \<and> docid r = d_docid a \<and>
                                   token r \<noteq> None) d))"
      by (simp only: n_tokens_document[OF dist m] count_notnull_length kept_filter)
    then show "d_n_tokens a =
          int (length (filter (\<lambda>r. \<not> is_punct r \<and> docid r = d_docid a \<and>
                                   token r \<noteq> None) d))"
      unfolding a[symmetric] .
  qed
  from calc_mdd_rows[OF m] agg_keys_sentence[OF m] agg_keys_document[OF m] s c
  show "\<exists>rs rd.
         calc_mdd d True = Inr (BySentence rs) \<and> calc_mdd d False = Inr (ByDocument rd) \<and>
         map (\<lambda>a. (s_docid a, s_sentid a)) rs = sort (remdups (map key (drop_punct d))) \<and>
         map d_docid rd = sort (remdups (map docid (drop_punct d))) \<and>
         (\<forall>a\<in>set rs.
            s_n_tokens a =
              int (length (filter (\<lambda>r. \<not> is_punct r \<and> key r = (s_docid a, s_sentid a) \<and>
                                       token r \<noteq> None) d))) \<and>
         (\<forall>a\<in>set rd.
            d_n_tokens a =
              int (length (filter (\<lambda>r. \<not> is_punct r \<and> docid r = d_docid a \<and>
                                       token r \<noteq> None) d)))"
    by blast
next
  show "\<not> distinct (map (\<lambda>r. (key r, id_col r)) (drop_punct dup_rows))"
    by code_simp
  show "length (drop_punct dup_rows) = 2"
    by code_simp
  show "calc_mdd dup_rows True =
      Inr (BySentence
        [\<lparr>s_docid = CStr ''A'', s_sentid = CStr ''1'', s_sum_dd = 1, s_n_tokens = 3,
          s_mdd = Finite (1 / 2)\<rparr>])"
    by code_simp
qed

subsection \<open>The worked example\<close>

lemma doc_df_rows: "doc_df = Inr doc_rows"
  unfolding doc_df_def by code_simp

lemma doc_rows_by_document:
  "calc_mdd doc_rows False =
     Inr (ByDocument
       [\<lparr>d_docid = CStr ''doc1'', d_sum_dd = 20, d_n_tokens = 13, d_n_sents = 2,
         d_mdd = Finite (20 / 11)\<rparr>])"
  by code_simp

lemma doc_rows_by_sentence:
  "calc_mdd doc_rows True =
     Inr (BySentence
       [\<lparr>s_docid = CStr ''doc1'', s_sentid = CStr ''1'', s_sum_dd = 4, s_n_tokens = 4,
         s_mdd = Finite (4 / 3)\<rparr>,
        \<lparr>s_docid = CStr ''doc1'', s_sentid = CStr ''2'', s_sum_dd = 16, s_n_tokens = 9,
         s_mdd = Finite 2\<rparr>])"
  by code_simp

text \<open>
  Claim C1.  Parsing the two-sentence document of the notebook succeeds, and on the frame
  it gives \<^verbatim>\<open>calc_mdd\<close> returns, by document, the one row \<open>sum_dd = 20\<close>, \<open>n_tokens = 13\<close>,
  \<open>n_sents = 2\<close>, \<open>mdd = 20 / 11\<close>, which is 1.8182 to four decimals; by sentence, the row
  \<open>sum_dd = 4\<close>, \<open>n_tokens = 4\<close>, \<open>mdd = 4 / 3\<close> (1.3333 to four decimals) for sentence 1
  and the row \<open>sum_dd = 16\<close>, \<open>n_tokens = 9\<close>, \<open>mdd = 2\<close> for sentence 2.
\<close>

theorem worked_example:
  "\<exists>d m1 m2.
     doc_df = Inr d \<and>
     calc_mdd d False =
       Inr (ByDocument
         [\<lparr>d_docid = CStr ''doc1'', d_sum_dd = 20, d_n_tokens = 13, d_n_sents = 2,
           d_mdd = Finite m1\<rparr>]) \<and>
     \<bar>m1 - 1.8182\<bar> < 0.00005 \<and>
     calc_mdd d True =
       Inr (BySentence
         [\<lparr>s_docid = CStr ''doc1'', s_sentid = CStr ''1'', s_sum_dd = 4, s_n_tokens = 4,
           s_mdd = Finite m2\<rparr>,
          \<lparr>s_docid = CStr ''doc1'', s_sentid = CStr ''2'', s_sum_dd = 16, s_n_tokens = 9,
           s_mdd = Finite 2\<rparr>]) \<and>
     \<bar>m2 - 1.3333\<bar> < 0.00005"
proof -
  have "\<bar>(20 / 11 :: real) - 1.8182\<bar> < 0.00005" and "\<bar>(4 / 3 :: real) - 1.3333\<bar> < 0.00005"
    by simp_all
  with doc_df_rows doc_rows_by_document doc_rows_by_sentence show ?thesis
    by blast
qed

subsection \<open>The statements at concrete frames\<close>

lemma doc_rows_notnull: "list_all notnull_key (drop_punct doc_rows)"
  by code_simp

lemma doc_rows_grouped: "grouped (map key (drop_punct doc_rows))"
  by code_simp

lemma doc_rows_distinct: "distinct (map (\<lambda>r. (key r, id_col r)) (drop_punct doc_rows))"
  by code_simp

lemma doc_rows_tokens: "list_all (\<lambda>r. token r \<noteq> None) (drop_punct doc_rows)"
  by code_simp

lemma doc_rows_dd_frame: "\<exists>m. dd_frame doc_rows = Inr m"
  using doc_rows_notnull by (simp add: dd_frame_eq list_all_iff)

text \<open>Claim C2 at the frame of the notebook.\<close>

theorem mdd_formula_witness:
  "distinct (map (\<lambda>r. (key r, id_col r)) (drop_punct doc_rows)) \<and>
   list_all (\<lambda>r. token r \<noteq> None) (drop_punct doc_rows) \<and>
   (\<exists>m rs rd.
     dd_frame doc_rows = Inr m \<and> map row.truncate m = drop_punct doc_rows \<and>
     calc_mdd doc_rows True = Inr (BySentence rs) \<and>
     calc_mdd doc_rows False = Inr (ByDocument rd) \<and>
     map (\<lambda>a. (s_docid a, s_sentid a)) rs = sort (remdups (map key (drop_punct doc_rows))) \<and>
     map d_docid rd = sort (remdups (map docid (drop_punct doc_rows))) \<and>
     (\<forall>a\<in>set rs.
        s_sum_dd a =
          (\<Sum>r\<leftarrow>filter (\<lambda>r. key r = (s_docid a, s_sentid a)) m.
             case new_head r of None \<Rightarrow> 0 | Some h \<Rightarrow> \<bar>h - new_id r\<bar>) \<and>
        s_n_tokens a =
          int (length (filter (\<lambda>r. token r \<noteq> None)
                 (filter (\<lambda>r. key r = (s_docid a, s_sentid a)) m))) \<and>
        s_mdd a =
          (if s_n_tokens a - 1 = 0 then (if s_sum_dd a = 0 then NaN else PosInf)
           else Finite (real_of_int (s_sum_dd a) / real_of_int (s_n_tokens a - 1)))) \<and>
     (\<forall>a\<in>set rd.
        d_sum_dd a =
          (\<Sum>r\<leftarrow>filter (\<lambda>r. docid r = d_docid a) m.
             case new_head r of None \<Rightarrow> 0 | Some h \<Rightarrow> \<bar>h - new_id r\<bar>) \<and>
        d_n_tokens a =
          int (length (filter (\<lambda>r. token r \<noteq> None)
                 (filter (\<lambda>r. docid r = d_docid a) m))) \<and>
        d_n_sents a =
          int (card (sentid ` set (filter (\<lambda>r. docid r = d_docid a) (drop_punct doc_rows)))) \<and>
        d_mdd a =
          (if d_n_tokens a - d_n_sents a = 0 then (if d_sum_dd a = 0 then NaN else PosInf)
           else Finite (real_of_int (d_sum_dd a) /
                        real_of_int (d_n_tokens a - d_n_sents a)))) \<and>
     (\<forall>a\<in>set rs.
        s_n_tokens a =
          int (length (filter (\<lambda>r. key r = (s_docid a, s_sentid a)) (drop_punct doc_rows)))) \<and>
     (\<forall>a\<in>set rd.
        d_n_tokens a =
          int (length (filter (\<lambda>r. docid r = d_docid a) (drop_punct doc_rows)))))"
proof -
  from doc_rows_dd_frame obtain m where m: "dd_frame doc_rows = Inr m" ..
  have h2: "\<forall>r\<in>set (drop_punct doc_rows). token r \<noteq> None"
    using doc_rows_tokens by (simp add: list_all_iff)
  from mdd_formula[OF m] doc_rows_distinct h2 m
  have "\<exists>m rs rd.
     dd_frame doc_rows = Inr m \<and> map row.truncate m = drop_punct doc_rows \<and>
     calc_mdd doc_rows True = Inr (BySentence rs) \<and>
     calc_mdd doc_rows False = Inr (ByDocument rd) \<and>
     map (\<lambda>a. (s_docid a, s_sentid a)) rs = sort (remdups (map key (drop_punct doc_rows))) \<and>
     map d_docid rd = sort (remdups (map docid (drop_punct doc_rows))) \<and>
     (\<forall>a\<in>set rs.
        s_sum_dd a =
          (\<Sum>r\<leftarrow>filter (\<lambda>r. key r = (s_docid a, s_sentid a)) m.
             case new_head r of None \<Rightarrow> 0 | Some h \<Rightarrow> \<bar>h - new_id r\<bar>) \<and>
        s_n_tokens a =
          int (length (filter (\<lambda>r. token r \<noteq> None)
                 (filter (\<lambda>r. key r = (s_docid a, s_sentid a)) m))) \<and>
        s_mdd a =
          (if s_n_tokens a - 1 = 0 then (if s_sum_dd a = 0 then NaN else PosInf)
           else Finite (real_of_int (s_sum_dd a) / real_of_int (s_n_tokens a - 1)))) \<and>
     (\<forall>a\<in>set rd.
        d_sum_dd a =
          (\<Sum>r\<leftarrow>filter (\<lambda>r. docid r = d_docid a) m.
             case new_head r of None \<Rightarrow> 0 | Some h \<Rightarrow> \<bar>h - new_id r\<bar>) \<and>
        d_n_tokens a =
          int (length (filter (\<lambda>r. token r \<noteq> None)
                 (filter (\<lambda>r. docid r = d_docid a) m))) \<and>
        d_n_sents a =
          int (card (sentid ` set (filter (\<lambda>r. docid r = d_docid a) (drop_punct doc_rows)))) \<and>
        d_mdd a =
          (if d_n_tokens a - d_n_sents a = 0 then (if d_sum_dd a = 0 then NaN else PosInf)
           else Finite (real_of_int (d_sum_dd a) /
                        real_of_int (d_n_tokens a - d_n_sents a)))) \<and>
     (\<forall>a\<in>set rs.
        s_n_tokens a =
          int (length (filter (\<lambda>r. key r = (s_docid a, s_sentid a)) (drop_punct doc_rows)))) \<and>
     (\<forall>a\<in>set rd.
        d_n_tokens a =
          int (length (filter (\<lambda>r. docid r = d_docid a) (drop_punct doc_rows))))"
    by (elim exE conjE impE) (simp, intro exI conjI, assumption+)
  with doc_rows_distinct doc_rows_tokens show ?thesis by (intro conjI)
qed

lemma null_token_parsed: "parse_conll null_token_text = Inr null_token_rows"
  by code_simp

text \<open>
  Claim C2 as it is written fails where \<open>n_tokens\<close> is not the number of kept tokens.  A
  data line of one field gives a kept token with a null \<^verbatim>\<open>token\<close> cell, which the count
  skips: two kept tokens, \<open>n_tokens = 1\<close>, and \<open>mdd\<close> is \<^verbatim>\<open>inf\<close> where the claim has
  \<open>1 / (2 - 1)\<close>.  A repeated \<^verbatim>\<open>id\<close> gives a kept token two rows in the join: two kept
  tokens, \<open>n_tokens = 3\<close>.
\<close>

theorem kept_tokens_miscounted:
  "parse_conll null_token_text = Inr null_token_rows \<and>
   length (drop_punct null_token_rows) = 2 \<and>
   calc_mdd null_token_rows False =
     Inr (ByDocument
       [\<lparr>d_docid = CStr ''A'', d_sum_dd = 1, d_n_tokens = 1, d_n_sents = 1,
         d_mdd = PosInf\<rparr>]) \<and>
   length (drop_punct dup_rows) = 2 \<and>
   calc_mdd dup_rows False =
     Inr (ByDocument
       [\<lparr>d_docid = CStr ''A'', d_sum_dd = 1, d_n_tokens = 3, d_n_sents = 1,
         d_mdd = Finite (1 / 2)\<rparr>])"
proof -
  have "length (drop_punct null_token_rows) = 2 \<and>
   calc_mdd null_token_rows False =
     Inr (ByDocument
       [\<lparr>d_docid = CStr ''A'', d_sum_dd = 1, d_n_tokens = 1, d_n_sents = 1,
         d_mdd = PosInf\<rparr>]) \<and>
   length (drop_punct dup_rows) = 2 \<and>
   calc_mdd dup_rows False =
     Inr (ByDocument
       [\<lparr>d_docid = CStr ''A'', d_sum_dd = 1, d_n_tokens = 3, d_n_sents = 1,
         d_mdd = Finite (1 / 2)\<rparr>])"
    by code_simp
  with null_token_parsed show ?thesis by (rule conjI)
qed

text \<open>
  Claim C3 as it is written fails on the document of the notebook: the two roots come out
  of the lookup with no \<^verbatim>\<open>new_head\<close> and no \<^verbatim>\<open>dd\<close>.
\<close>

theorem root_new_head_missing:
  "(case dd_frame doc_rows of
      Inl e \<Rightarrow> []
    | Inr m \<Rightarrow>
        map (\<lambda>r. (token r, head r, new_head r, dd r))
          (filter (\<lambda>r. head r = Some ''0'') m)) =
   [(Some ''eat'', Some ''0'', None, None), (Some ''eaten'', Some ''0'', None, None)]"
  by code_simp

theorem root_unmatched_witness:
  "list_all (\<lambda>r. id_col r \<noteq> Some ''0'') (drop_punct doc_rows) \<and>
   (\<exists>m. dd_frame doc_rows = Inr m \<and>
        (\<forall>r\<in>set m. head r = Some ''0'' \<longrightarrow> new_head r = None \<and> dd r = None) \<and>
        (\<forall>k. s_sum_dd (sent_row m k) =
             sum_skipna (map dd (filter (\<lambda>r. key r = k \<and> head r \<noteq> Some ''0'') m))))"
proof -
  have h: "list_all (\<lambda>r. id_col r \<noteq> Some ''0'') (drop_punct doc_rows)"
    by code_simp
  then have h': "\<forall>r\<in>set (drop_punct doc_rows). id_col r \<noteq> Some ''0''"
    by (simp add: list_all_iff)
  from doc_rows_dd_frame obtain m where m: "dd_frame doc_rows = Inr m" ..
  from root_unmatched[OF m h'] m h show ?thesis by blast
qed

lemma interleaved_parsed: "parse_conll interleaved_text = Inr interleaved"
  by code_simp

text \<open>
  Claim C4.  The rows of one sentence on their own are to give the row that the whole
  frame gives for that sentence; the notebook checks this on its document.  \<^verbatim>\<open>calc_mdd\<close>
  does not do so on the frame that \<^verbatim>\<open>parse_conll\<close> gives for a text that uses
  \<^verbatim>\<open>sent_id = 1\<close> twice in document A, so that sentence 1 is interrupted by sentence 2:
  within the whole frame sentence 1 has \<open>sum_dd = 0\<close> and \<open>mdd = 0\<close>, on its own it has
  \<open>sum_dd = 1\<close> and \<open>mdd = 1\<close>.
\<close>

theorem interleaved_round_trip:
  "parse_conll interleaved_text = Inr interleaved \<and>
   calc_mdd interleaved True =
     Inr (BySentence
       [\<lparr>s_docid = CStr ''A'', s_sentid = CStr ''1'', s_sum_dd = 0, s_n_tokens = 2,
         s_mdd = Finite 0\<rparr>,
        \<lparr>s_docid = CStr ''A'', s_sentid = CStr ''2'', s_sum_dd = 0, s_n_tokens = 1,
         s_mdd = NaN\<rparr>]) \<and>
   calc_mdd (filter (\<lambda>r. key r = (CStr ''A'', CStr ''1'')) interleaved) True =
     Inr (BySentence
       [\<lparr>s_docid = CStr ''A'', s_sentid = CStr ''1'', s_sum_dd = 1, s_n_tokens = 2,
         s_mdd = Finite 1\<rparr>])"
proof -
  have "calc_mdd interleaved True =
     Inr (BySentence
       [\<lparr>s_docid = CStr ''A'', s_sentid = CStr ''1'', s_sum_dd = 0, s_n_tokens = 2,
         s_mdd = Finite 0\<rparr>,
        \<lparr>s_docid = CStr ''A'', s_sentid = CStr ''2'', s_sum_dd = 0, s_n_tokens = 1,
         s_mdd = NaN\<rparr>]) \<and>
   calc_mdd (filter (\<lambda>r. key r = (CStr ''A'', CStr ''1'')) interleaved) True =
     Inr (BySentence
       [\<lparr>s_docid = CStr ''A'', s_sentid = CStr ''1'', s_sum_dd = 1, s_n_tokens = 2,
         s_mdd = Finite 1\<rparr>])"
    by code_simp
  with interleaved_parsed show ?thesis by (rule conjI)
qed

text \<open>The document of the notebook holds the rows of each sentence together.\<close>

lemma sentence_round_trip_witness:
  "grouped (map key (drop_punct doc_rows)) \<and>
   list_all notnull_key (drop_punct doc_rows) \<and>
   (\<exists>a. calc_mdd doc_rows True = Inr (BySentence a) \<and>
        calc_mdd (filter (\<lambda>r. key r = (CStr ''doc1'', CStr ''2'')) doc_rows) True =
          Inr (BySentence
            (filter (\<lambda>x. (s_docid x, s_sentid x) = (CStr ''doc1'', CStr ''2'')) a)))"
proof -
  have nn: "\<forall>r\<in>set (drop_punct doc_rows). notnull_key r"
    using doc_rows_notnull by (simp add: list_all_iff)
  from sentence_round_trip[OF doc_rows_grouped nn, of "(CStr ''doc1'', CStr ''2'')"]
    doc_rows_grouped doc_rows_notnull
  show ?thesis by blast
qed



text \<open>
  Claim C6 as it is written fails on a sentence of one token: \<^verbatim>\<open>calc_mdd\<close> returns its
  row, by sentence and by document, with the float \<^verbatim>\<open>NaN\<close> as \<open>mdd\<close>.
\<close>

theorem single_token_nan:
  "calc_mdd one_token True =
     Inr (BySentence
       [\<lparr>s_docid = CStr ''A'', s_sentid = CStr ''1'', s_sum_dd = 0, s_n_tokens = 1,
         s_mdd = NaN\<rparr>]) \<and>
   calc_mdd one_token False =
     Inr (ByDocument
       [\<lparr>d_docid = CStr ''A'', d_sum_dd = 0, d_n_tokens = 1, d_n_sents = 1,
         d_mdd = NaN\<rparr>])"
  by code_simp

theorem zero_divisor_witness:
  "\<exists>m. dd_frame one_token = Inr m \<and>
       calc_mdd one_token True = Inr (BySentence (agg_by_sentence m)) \<and>
       calc_mdd one_token False = Inr (ByDocument (agg_by_document m)) \<and>
       (\<forall>a\<in>set (agg_by_sentence m). s_n_tokens a - 1 = 0 \<longrightarrow>
          s_mdd a = (if s_sum_dd a = 0 then NaN else PosInf)) \<and>
       (\<forall>a\<in>set (agg_by_document m). d_n_tokens a - d_n_sents a = 0 \<longrightarrow>
          d_mdd a = (if d_sum_dd a = 0 then NaN else PosInf)) \<and>
       list_all (\<lambda>a. s_n_tokens a - 1 = 0) (agg_by_sentence m)"
proof -
  have "list_all notnull_key (drop_punct one_token)" by code_simp
  then obtain m where m: "dd_frame one_token = Inr m"
    by (simp add: dd_frame_eq list_all_iff)
  have "calc_mdd one_token True =
     Inr (BySentence
       [\<lparr>s_docid = CStr ''A'', s_sentid = CStr ''1'', s_sum_dd = 0, s_n_tokens = 1,
         s_mdd = NaN\<rparr>])"
    by code_simp
  then have "agg_by_sentence m =
       [\<lparr>s_docid = CStr ''A'', s_sentid = CStr ''1'', s_sum_dd = 0, s_n_tokens = 1,
         s_mdd = NaN\<rparr>]"
    by (simp add: calc_mdd_def m)
  then have z: "list_all (\<lambda>a. s_n_tokens a - 1 = 0) (agg_by_sentence m)"
    by simp
  from zero_divisor[OF m] m z show ?thesis by blast
qed

text \<open>
  Claim C7 as it is written fails on a text of two data lines, the first with 10 fields and
  the second with 9: \<^verbatim>\<open>parse_conll\<close> returns both rows, the second with \<^verbatim>\<open>None\<close> in its
  last column.
\<close>

theorem short_line_accepted:
  "map n_fields (data_lines short_line) = [10, 9] \<and>
   parse_conll short_line =
     Inr [\<lparr>docid = CNone, sentid = CInt 1, id_col = Some ''1'', token = Some ''I'',
           lemma_col = Some ''I'', upos = Some ''PRON'', xpos = Some ''PRP'',
           feats = Some ''_'', head = Some ''2'', deprel = Some ''nsubj'',
           deps = Some ''_'', misc = Some ''_''\<rparr>,
          \<lparr>docid = CNone, sentid = CInt 1, id_col = Some ''2'', token = Some ''run'',
           lemma_col = Some ''run'', upos = Some ''VERB'', xpos = Some ''VBP'',
           feats = Some ''_'', head = Some ''0'', deprel = Some ''root'',
           deps = Some ''_'', misc = None\<rparr>]"
  by code_simp

text \<open>
  Claim C7 at a comment line without the space, a text of one comment line, a line of 11
  fields, and the text of a line of 10 fields and a line of 9.
\<close>

theorem parse_conll_field_count_witness:
  "list_ex bad_comment (map strip (split_char (CHR 0x0A) ''# sent_id =7'')) \<and>
   parse_conll ''# sent_id =7'' = Inl IndexError \<and>
   \<not> list_ex bad_comment (map strip (split_char (CHR 0x0A) ''# newdoc'')) \<and>
   data_lines ''# newdoc'' = [] \<and>
   parse_conll ''# newdoc'' = Inr [] \<and>
   \<not> list_ex bad_comment (map strip (split_char (CHR 0x0A) long_line)) \<and>
   map n_fields (data_lines long_line) = [11] \<and>
   parse_conll long_line = Inl ValueError \<and>
   \<not> list_ex bad_comment (map strip (split_char (CHR 0x0A) short_line)) \<and>
   map n_fields (data_lines short_line) = [10, 9] \<and>
   (\<exists>rows. parse_conll short_line = Inr rows \<and>
      map fields_of rows =
        map (\<lambda>l. map (nth_field (split_char (CHR 0x09) l)) [0..<10]) (data_lines short_line))"
proof -
  have a1: "list_ex bad_comment (map strip (split_char (CHR 0x0A) ''# sent_id =7''))"
    by code_simp
  have b1: "\<not> list_ex bad_comment (map strip (split_char (CHR 0x0A) ''# newdoc''))"
    and b2: "data_lines ''# newdoc'' = []"
    by code_simp+
  have c1: "\<not> list_ex bad_comment (map strip (split_char (CHR 0x0A) long_line))"
    and c2: "map n_fields (data_lines long_line) = [11]"
    by code_simp+
  from c2 have c3: "list_ex (\<lambda>l. 10 < n_fields l) (data_lines long_line)"
    by (cases "data_lines long_line") auto
  have d1: "\<not> list_ex bad_comment (map strip (split_char (CHR 0x0A) short_line))"
    and d2: "map n_fields (data_lines short_line) = [10, 9]"
    by code_simp+
  from d2 have d3: "data_lines short_line \<noteq> []"
    and d4: "Max (set (map n_fields (data_lines short_line))) = 10"
    by auto
  from parse_conll_field_count[of "''# sent_id =7''"] a1
  have a: "parse_conll ''# sent_id =7'' = Inl IndexError" by blast
  from parse_conll_field_count[of "''# newdoc''"] b1 b2
  have b: "parse_conll ''# newdoc'' = Inr []" by blast
  from parse_conll_field_count[of long_line] c1 c3
  have c: "parse_conll long_line = Inl ValueError" by blast
  from parse_conll_field_count[of short_line] d1 d3 d4
  have d: "\<exists>rows. parse_conll short_line = Inr rows \<and>
      map fields_of rows =
        map (\<lambda>l. map (nth_field (split_char (CHR 0x09) l)) [0..<10]) (data_lines short_line)"
    by blast
  from a1 a b1 b2 b c1 c2 c d1 d2 d show ?thesis by (intro conjI)
qed

text \<open>
  A line of 10 fields and one more tab is accepted: stripped, it has 10 fields.
\<close>

lemma trailing_tab_accepted:
  "length (split_char (CHR 0x09) trailing_tab) = 11 \<and>
   map n_fields (data_lines trailing_tab) = [10] \<and>
   parse_conll trailing_tab =
     Inr [\<lparr>docid = CNone, sentid = CInt 1, id_col = Some ''1'', token = Some ''Go'',
           lemma_col = Some ''go'', upos = Some ''VERB'', xpos = Some ''VB'',
           feats = Some ''_'', head = Some ''0'', deprel = Some ''root'',
           deps = Some ''_'', misc = Some ''_''\<rparr>]"
  by code_simp

text \<open>
  Claim C8.  In every group the values of \<^verbatim>\<open>new_id\<close> are to be \<open>1, \<dots>, k\<close> in the
  order of the rows.  \<^verbatim>\<open>calc_mdd\<close> does not assign them so on the frame that
  \<^verbatim>\<open>parse_conll\<close> gives for a text that uses \<^verbatim>\<open>sent_id = 1\<close> twice in document A, so
  that sentence 1 is interrupted by sentence 2: the two tokens of sentence 1 both get
  \<^verbatim>\<open>new_id\<close> 1, and the one token of sentence 2 gets 2.
\<close>

theorem interleaved_new_id:
  "parse_conll interleaved_text = Inr interleaved \<and>
   (case set_new_id (drop_punct interleaved) of
      Inl e \<Rightarrow> []
    | Inr d1 \<Rightarrow> map (\<lambda>r. (sentid r, token r, new_id r)) d1) =
   [(CStr ''1'', Some ''I'', 1), (CStr ''2'', Some ''Go'', 2), (CStr ''1'', Some ''run'', 1)]"
proof -
  have "(case set_new_id (drop_punct interleaved) of
      Inl e \<Rightarrow> []
    | Inr d1 \<Rightarrow> map (\<lambda>r. (sentid r, token r, new_id r)) d1) =
   [(CStr ''1'', Some ''I'', 1), (CStr ''2'', Some ''Go'', 2), (CStr ''1'', Some ''run'', 1)]"
    by code_simp
  with interleaved_parsed show ?thesis by (rule conjI)
qed

text \<open>On the document of the notebook the numbers are those of the groups.\<close>

lemma new_id_contiguous_witness:
  "grouped (map key (drop_punct doc_rows)) \<and>
   list_all notnull_key (drop_punct doc_rows) \<and>
   (\<exists>d1. set_new_id (drop_punct doc_rows) = Inr d1 \<and>
        map row.truncate d1 = drop_punct doc_rows \<and>
        (\<forall>k. map new_id (filter (\<lambda>r. key r = k) d1) =
             [1 .. int (length (filter (\<lambda>r. key r = k) (drop_punct doc_rows)))]))"
proof -
  have nn: "\<forall>r\<in>set (drop_punct doc_rows). notnull_key r"
    using doc_rows_notnull by (simp add: list_all_iff)
  from new_id_contiguous[OF doc_rows_grouped nn] doc_rows_grouped doc_rows_notnull
  show ?thesis by blast
qed

text \<open>
  Claim C9 at the document of the notebook and the same document without its punctuation,
  renumbered, with an exclamation mark added.
\<close>

theorem punctuation_exclusion_witness:
  "drop_punct doc_rows_renumbered = map (rename renumber) (drop_punct doc_rows) \<and>
   list_all (\<lambda>r. list_all (\<lambda>l. key r = key l \<longrightarrow>
      (renumber (key r) (id_col r) = renumber (key l) (head l)) = (id_col r = head l))
        (drop_punct doc_rows)) (drop_punct doc_rows) \<and>
   calc_mdd doc_rows_renumbered True = calc_mdd doc_rows True \<and>
   calc_mdd doc_rows_renumbered False = calc_mdd doc_rows False \<and>
   map_sum id (map new_id) (set_new_id (drop_punct doc_rows_renumbered)) =
     map_sum id (map new_id) (set_new_id (drop_punct doc_rows))"
proof -
  have h1: "drop_punct doc_rows_renumbered = map (rename renumber) (drop_punct doc_rows)"
    by code_simp
  have h2: "list_all (\<lambda>r. list_all (\<lambda>l. key r = key l \<longrightarrow>
      (renumber (key r) (id_col r) = renumber (key l) (head l)) = (id_col r = head l))
        (drop_punct doc_rows)) (drop_punct doc_rows)"
    by code_simp
  then have h2': "\<forall>r\<in>set (drop_punct doc_rows). \<forall>l\<in>set (drop_punct doc_rows).
      key r = key l \<longrightarrow>
      (renumber (key r) (id_col r) = renumber (key l) (head l)) = (id_col r = head l)"
    by (simp add: list_all_iff)
  from punctuation_exclusion[OF h1 h2', of True] punctuation_exclusion[OF h1 h2', of False]
    h1 h2
  show ?thesis by blast
qed

text \<open>Claim C10 at the frame of the notebook.\<close>

theorem merge_one_row_per_token_witness:
  "distinct (map (\<lambda>r. (key r, id_col r)) (drop_punct doc_rows)) \<and>
   (\<exists>m rs rd.
      dd_frame doc_rows = Inr m \<and> map row.truncate m = drop_punct doc_rows \<and>
      calc_mdd doc_rows True = Inr (BySentence rs) \<and>
      calc_mdd doc_rows False = Inr (ByDocument rd) \<and>
      map (\<lambda>a. (s_docid a, s_sentid a)) rs = sort (remdups (map key (drop_punct doc_rows))) \<and>
      map d_docid rd = sort (remdups (map docid (drop_punct doc_rows))) \<and>
      (\<forall>a\<in>set rs.
         s_n_tokens a =
           int (length (filter (\<lambda>r. \<not> is_punct r \<and> key r = (s_docid a, s_sentid a) \<and>
                                    token r \<noteq> None) doc_rows))) \<and>
      (\<forall>a\<in>set rd.
         d_n_tokens a =
           int (length (filter (\<lambda>r. \<not> is_punct r \<and> docid r = d_docid a \<and>
                                    token r \<noteq> None) doc_rows))))"
proof -
  from doc_rows_dd_frame obtain m where m: "dd_frame doc_rows = Inr m" ..
  from merge_one_row_per_token[of doc_rows m] doc_rows_distinct m
  have "\<exists>m rs rd.
      dd_frame doc_rows = Inr m \<and> map row.truncate m = drop_punct doc_rows \<and>
      calc_mdd doc_rows True = Inr (BySentence rs) \<and>
      calc_mdd doc_rows False = Inr (ByDocument rd) \<and>
      map (\<lambda>a. (s_docid a, s_sentid a)) rs = sort (remdups (map key (drop_punct doc_rows))) \<and>
      map d_docid rd = sort (remdups (map docid (drop_punct doc_rows))) \<and>
      (\<forall>a\<in>set rs.
         s_n_tokens a =
           int (length (filter (\<lambda>r. \<not> is_punct r \<and> key r = (s_docid a, s_sentid a) \<and>
                                    token r \<noteq> None) doc_rows))) \<and>
      (\<forall>a\<in>set rd.
         d_n_tokens a =
           int (length (filter (\<lambda>r. \<not> is_punct r \<and> docid r = d_docid a \<and>
                                    token r \<noteq> None) doc_rows)))"
    by blast
  with doc_rows_distinct show ?thesis by (rule conjI)
qed

text \<open>
  Claim C10 as it is written fails on the frame of a text whose second data line has one
  field: no \<^verbatim>\<open>id\<close> is repeated, the frame has two rows, neither is punctuation, and
  \<open>n_tokens\<close> is 1.
\<close>

theorem null_token_count:
  "parse_conll null_token_text = Inr null_token_rows \<and>
   distinct (map (\<lambda>r. (key r, id_col r)) (drop_punct null_token_rows)) \<and>
   length (filter (\<lambda>r. \<not> is_punct r) null_token_rows) = 2 \<and>
   calc_mdd null_token_rows True =
     Inr (BySentence
       [\<lparr>s_docid = CStr ''A'', s_sentid = CStr ''1'', s_sum_dd = 1, s_n_tokens = 1,
         s_mdd = PosInf\<rparr>])"
proof -
  have "distinct (map (\<lambda>r. (key r, id_col r)) (drop_punct null_token_rows)) \<and>
   length (filter (\<lambda>r. \<not> is_punct r) null_token_rows) = 2 \<and>
   calc_mdd null_token_rows True =
     Inr (BySentence
       [\<lparr>s_docid = CStr ''A'', s_sentid = CStr ''1'', s_sum_dd = 1, s_n_tokens = 1,
         s_mdd = PosInf\<rparr>])"
    by code_simp
  with null_token_parsed show ?thesis by (rule conjI)
qed

end
